theory Spec2Isabelle
  imports Main
begin

section \<open>Devices, timeline operations and the hardware environment\<close>

text \<open>
  The experiments of this repository run on an ARTIQ core device. A kernel schedules
  operations on TTL and Urukul DDS channels against a timeline cursor (\<open>now_mu()\<close>),
  reads back the time stamp of a gated input, and stores results in arrays of the
  experiment object. The embedding keeps the cursor and the list of operations issued so
  far (each with the cursor value at which it was issued) in the kernel state.

  Times are in machine units; the durations below take one machine unit to be one
  nanosecond (\<open>50 * ns\<close> is 50, \<open>1 * us\<close> is 1000). Frequencies are kept in MHz and
  amplitudes in tenths of full scale, so that \<open>set(100 * MHz)\<close> is \<open>DdsSet _ 100\<close>
  and \<open>set_amplitude(0.8)\<close> is \<open>DdsSetAmplitude _ 8\<close>. Python's integers are
  unbounded \<open>int\<close>s; counters that only count up from zero are \<open>nat\<close>.
\<close>

datatype ttl = ttl0 | ttl1 | ttl4 | ttl5 | ttl6 | ttl7

datatype urukul = urukul0_ch0 | urukul0_ch1 | urukul0_ch2 | urukul0_ch3

datatype op =
    CoreReset
  | BreakRealtime
  | HostMotLoadWait nat
  | TtlInput ttl
  | TtlOutput ttl
  | TtlOn ttl
  | TtlOff ttl
  | GateRising ttl int
  | DdsSet urukul nat
  | DdsSetAmplitude urukul nat
  | SwOn urukul
  | SwOff urukul

text \<open>
  What the kernel cannot decide is supplied by the hardware: the pair of time stamps
  \<open>(ttl_time0, ttl_time1)\<close> returned by \<open>timestamp_mu\<close> for the k-th pair of gate
  windows of the chunk (\<open>-1\<close> when no rising edge fell into the window), the lower bound
  (hardware counter plus margin) that \<open>break_realtime\<close> and \<open>core.reset\<close> see when
  they are called after \<open>n\<close> operations, and the timeline cost of the two DDS register
  writes. These come from the ARTIQ library, not from the repository, and are parameters.
\<close>

record hw =
  gates :: "nat \<Rightarrow> int \<times> int"
  rtio_min_now :: "nat \<Rightarrow> int"
  set_mu :: int
  set_amplitude_mu :: int

text \<open>
  \<open>IndexError\<close> is what an array store past the end raises. The other two are raised
  by the ARTIQ runtime, never by the statements modelled here; they stand for a kernel
  call that the environment aborts.
\<close>

datatype error = IndexError | RTIOUnderflow | TerminationRequested

datatype flow = Continue | Break

section \<open>Kernel state\<close>

text \<open>
  The timeline is the cursor and the operations issued so far. The six arrays are
  attributes of the experiment object, allocated by \<open>run\<close> before each chunk. The
  counters are the locals of \<open>run_chunk_experiment\<close>.
  \<open>attempt_no\<close> is not a program variable: it counts the gate windows read so far and
  selects the next reading of \<^const>\<open>gates\<close>.
\<close>

record timeline =
  now :: int
  trace :: "(int \<times> op) list"

record kstate =
  rtio :: timeline
  attempt_no :: nat
  attempt_index :: int
  ttl0_detected_count :: nat
  ttl1_detected_count :: nat
  tomo_count :: nat
  photon_detected_this_cycle :: bool
  ttl0_detected_times :: "int list"
  ttl0_detected_attempts :: "int list"
  ttl1_detected_times :: "int list"
  ttl1_detected_attempts :: "int list"
  atom_tomo_times :: "int list"
  atom_tomo_attempts :: "int list"

record config =
  num_big_cycles_chunk :: nat
  num_chunks :: nat
  num_cooling_cycles :: nat
  attempts_per_cooling :: nat

text \<open>
  The three chunked experiments: \<open>FullExperimentSequence16\<close> (Seq5.py),
  \<open>FullExperimentSequence17\<close> (Seq6.py) and \<open>FullExperimentSequence21\<close> (Seq7.py).
  Their kernels are the same text except in three places: Seq5 waits for the MOT on the
  timeline where Seq6 and Seq7 call the host; Seq5 and Seq6 run the tomography block and
  leave both loops on a detection, which Seq7 does not have; and Seq5 and Seq6 skip the
  cooling block after a detection.
\<close>

datatype variant = Seq5 | Seq6 | Seq7

fun host_wait :: "variant \<Rightarrow> bool" where
  "host_wait Seq5 = False"
| "host_wait Seq6 = True"
| "host_wait Seq7 = True"

fun stop_on_detection :: "variant \<Rightarrow> bool" where
  "stop_on_detection Seq5 = True"
| "stop_on_detection Seq6 = True"
| "stop_on_detection Seq7 = False"

section \<open>Timeline primitives\<close>

definition emit :: "op \<Rightarrow> timeline \<Rightarrow> timeline" where
  "emit x s = s\<lparr>trace := trace s @ [(now s, x)]\<rparr>"

definition delay :: "int \<Rightarrow> timeline \<Rightarrow> timeline" where
  "delay d s = s\<lparr>now := now s + d\<rparr>"

text \<open>\<open>break_realtime\<close> moves the cursor forward to at least the hardware's bound.\<close>

definition break_realtime :: "hw \<Rightarrow> timeline \<Rightarrow> timeline" where
  "break_realtime h s =
     (emit BreakRealtime s)\<lparr>now := max (now s) (rtio_min_now h (length (trace s)))\<rparr>"

definition core_reset :: "hw \<Rightarrow> timeline \<Rightarrow> timeline" where
  "core_reset h s = (emit CoreReset s)\<lparr>now := rtio_min_now h (length (trace s))\<rparr>"

text \<open>The synchronous RPC \<open>host_mot_load_wait\<close>: the cursor does not move.\<close>

definition host_mot_load_wait :: "nat \<Rightarrow> timeline \<Rightarrow> timeline" where
  "host_mot_load_wait ms = emit (HostMotLoadWait ms)"

definition ttl_pulse :: "ttl \<Rightarrow> int \<Rightarrow> timeline \<Rightarrow> timeline" where
  "ttl_pulse c d s = emit (TtlOff c) (delay d (emit (TtlOn c) s))"

definition sw_pulse :: "urukul \<Rightarrow> int \<Rightarrow> timeline \<Rightarrow> timeline" where
  "sw_pulse c d s = emit (SwOff c) (delay d (emit (SwOn c) s))"

definition dds_set :: "hw \<Rightarrow> urukul \<Rightarrow> nat \<Rightarrow> timeline \<Rightarrow> timeline" where
  "dds_set h c f s = delay (set_mu h) (emit (DdsSet c f) s)"

definition dds_set_amplitude :: "hw \<Rightarrow> urukul \<Rightarrow> nat \<Rightarrow> timeline \<Rightarrow> timeline" where
  "dds_set_amplitude h c a s = delay (set_amplitude_mu h) (emit (DdsSetAmplitude c a) s)"

text \<open>
  \<open>with parallel: tend0 = ttl0.gate_rising(d); tend1 = ttl1.gate_rising(d)\<close>: both
  windows open at the current cursor, and the cursor ends at the later end.
\<close>

definition gate_rising_parallel :: "int \<Rightarrow> timeline \<Rightarrow> timeline" where
  "gate_rising_parallel d s =
     (emit (GateRising ttl1 d) (emit (GateRising ttl0 d) s))\<lparr>now := max (now s + d) (now s + d)\<rparr>"

definition mot_load_time :: int where "mot_load_time = 500000000"
definition atom_load_time :: int where "atom_load_time = 100000000"
definition optical_pump_time :: int where "optical_pump_time = 10000"
definition excitation_time :: int where "excitation_time = 50"
definition pulse_width :: int where "pulse_width = 50"
definition gate_rising_time :: int where "gate_rising_time = 100"
definition small_delay :: int where "small_delay = 1000"

section \<open>Loops and array stores\<close>

text \<open>
  \<open>for _ in range(n): body\<close>, where the body may raise (\<open>Inl\<close>, with the state at the
  raise) or \<open>break\<close>. None of the kernel loops uses its index.
\<close>

fun for_range :: "nat \<Rightarrow> ('s \<Rightarrow> 'e + flow \<times> 's) \<Rightarrow> 's \<Rightarrow> 'e + 's" where
  "for_range 0 body s = Inr s"
| "for_range (Suc n) body s =
     (case body s of
        Inl e \<Rightarrow> Inl e
      | Inr (Break, s') \<Rightarrow> Inr s'
      | Inr (Continue, s') \<Rightarrow> for_range n body s')"

text \<open>\<open>xs[i] = v\<close> on an array: an index past the end raises.\<close>

definition set_item :: "int list \<Rightarrow> nat \<Rightarrow> int \<Rightarrow> error + int list" where
  "set_item xs i v = (if i < length xs then Inr (xs[i := v]) else Inl IndexError)"

text \<open>A block of statements that cannot raise, run top to bottom.\<close>

definition steps :: "('s \<Rightarrow> 's) list \<Rightarrow> 's \<Rightarrow> 's" where
  "steps fs s = fold (\<lambda>f t. f t) fs s"

text \<open>Statements that only schedule operations change nothing but the timeline.\<close>

definition on_rtio :: "(timeline \<Rightarrow> timeline) \<Rightarrow> kstate \<Rightarrow> kstate" where
  "on_rtio f s = s\<lparr>rtio := f (rtio s)\<rparr>"

text \<open>
  The detection stores of one attempt. Each is two array writes and an increment, in the
  source's order; a raise leaves what was written before it.
  \<^verbatim>\<open>
  self.ttl0_detected_times[ttl0_detected_count] = ttl_time0
  self.ttl0_detected_attempts[ttl0_detected_count] = attempt_index
  ttl0_detected_count += 1
  \<close>
\<close>

definition store_ttl0 :: "int \<Rightarrow> kstate \<Rightarrow> error \<times> kstate + kstate" where
  "store_ttl0 ttl_time0 s =
     (case set_item (ttl0_detected_times s) (ttl0_detected_count s) ttl_time0 of
        Inl e \<Rightarrow> Inl (e, s)
      | Inr a \<Rightarrow>
         (let s1 = s\<lparr>ttl0_detected_times := a\<rparr> in
          case set_item (ttl0_detected_attempts s1) (ttl0_detected_count s1) (attempt_index s1) of
            Inl e \<Rightarrow> Inl (e, s1)
          | Inr b \<Rightarrow>
             Inr (s1\<lparr>ttl0_detected_attempts := b,
                     ttl0_detected_count := ttl0_detected_count s1 + 1\<rparr>)))"

definition store_ttl1 :: "int \<Rightarrow> kstate \<Rightarrow> error \<times> kstate + kstate" where
  "store_ttl1 ttl_time1 s =
     (case set_item (ttl1_detected_times s) (ttl1_detected_count s) ttl_time1 of
        Inl e \<Rightarrow> Inl (e, s)
      | Inr a \<Rightarrow>
         (let s1 = s\<lparr>ttl1_detected_times := a\<rparr> in
          case set_item (ttl1_detected_attempts s1) (ttl1_detected_count s1) (attempt_index s1) of
            Inl e \<Rightarrow> Inl (e, s1)
          | Inr b \<Rightarrow>
             Inr (s1\<lparr>ttl1_detected_attempts := b,
                     ttl1_detected_count := ttl1_detected_count s1 + 1\<rparr>)))"

section \<open>The kernel \<open>run_chunk_experiment\<close>\<close>

subsection \<open>The load phases of a big cycle\<close>

text \<open>
  Seq5.py lines 138-158 (the MOT holds for \<open>mot_load_time\<close> on the timeline);
  Seq6.py lines 129-154 and Seq7.py lines 126-151 (the wait is the host's, between two
  \<open>break_realtime\<close> calls).
\<close>

definition mot_load :: "variant \<Rightarrow> hw \<Rightarrow> timeline \<Rightarrow> timeline" where
  "mot_load v h s = steps
     ([break_realtime h,
       emit (TtlOn ttl4),
       emit (TtlOn ttl5),
       emit (TtlOn ttl6),
       dds_set h urukul0_ch0 100,
       dds_set_amplitude h urukul0_ch0 8,
       emit (SwOn urukul0_ch0),
       dds_set h urukul0_ch1 80,
       dds_set_amplitude h urukul0_ch1 5,
       emit (SwOn urukul0_ch1)]
      @ (if host_wait v
         then [break_realtime h, host_mot_load_wait 500, break_realtime h]
         else [delay mot_load_time])
      @ [emit (SwOff urukul0_ch0),
         emit (SwOff urukul0_ch1),
         emit (TtlOff ttl4),
         emit (TtlOff ttl5),
         emit (TtlOff ttl6)]) s"

definition atom_load :: "hw \<Rightarrow> timeline \<Rightarrow> timeline" where
  "atom_load h s = steps
     [dds_set h urukul0_ch2 120,
      dds_set_amplitude h urukul0_ch2 7,
      emit (SwOn urukul0_ch2),
      delay atom_load_time,
      emit (SwOff urukul0_ch2)] s"

definition configure_ch3 :: "hw \<Rightarrow> timeline \<Rightarrow> timeline" where
  "configure_ch3 h s = steps
     [dds_set h urukul0_ch3 90,
      dds_set_amplitude h urukul0_ch3 6,
      emit (SwOn urukul0_ch3)] s"

subsection \<open>One attempt\<close>

text \<open>Optical pumping, excitation, the reference pulse and the two gates.\<close>

definition attempt_pulses :: "timeline \<Rightarrow> timeline" where
  "attempt_pulses s = steps
     [delay 5000,
      sw_pulse urukul0_ch3 optical_pump_time,
      delay small_delay,
      sw_pulse urukul0_ch3 excitation_time,
      delay small_delay,
      ttl_pulse ttl7 pulse_width,
      gate_rising_parallel gate_rising_time] s"

text \<open>
  The tomography block of Seq5.py (lines 214-224) and Seq6.py (lines 207-216):
  \<^verbatim>\<open>
  tomography_time = now_mu()
  self.atom_tomo_times[tomo_count] = tomography_time
  self.atom_tomo_attempts[tomo_count] = attempt_index
  tomo_count += 1
  delay(3 * us); self.ttl4.on(); delay(10 * ms); self.ttl4.off()
  \<close>
\<close>

definition tomography_pulse :: "timeline \<Rightarrow> timeline" where
  "tomography_pulse s = steps
     [delay 3000,
      emit (TtlOn ttl4),
      delay 10000000,
      emit (TtlOff ttl4)] s"

definition tomography :: "kstate \<Rightarrow> error \<times> kstate + kstate" where
  "tomography s =
     (let tomography_time = now (rtio s) in
      case set_item (atom_tomo_times s) (tomo_count s) tomography_time of
        Inl e \<Rightarrow> Inl (e, s)
      | Inr a \<Rightarrow>
         (let s1 = s\<lparr>atom_tomo_times := a\<rparr> in
          case set_item (atom_tomo_attempts s1) (tomo_count s1) (attempt_index s1) of
            Inl e \<Rightarrow> Inl (e, s1)
          | Inr b \<Rightarrow>
             Inr (on_rtio tomography_pulse
                    (s1\<lparr>atom_tomo_attempts := b, tomo_count := tomo_count s1 + 1\<rparr>))))"

text \<open>
  The body of the attempt loop. In Seq5 and Seq6 a detection runs the tomography block,
  sets the flag and breaks, before the increment of \<open>attempt_index\<close> at the end of the
  body; in Seq7 the body always reaches the increment.
\<close>

definition attempt :: "variant \<Rightarrow> hw \<Rightarrow> kstate \<Rightarrow> error \<times> kstate + flow \<times> kstate" where
  "attempt v h s =
     (let s1 = on_rtio attempt_pulses s;
          (ttl_time0, ttl_time1) = gates h (attempt_no s1);
          s2 = s1\<lparr>attempt_no := Suc (attempt_no s1)\<rparr>
      in case (if ttl_time0 \<noteq> - 1 then store_ttl0 ttl_time0 s2 else Inr s2) of
           Inl e \<Rightarrow> Inl e
         | Inr s3 \<Rightarrow>
            (case (if ttl_time1 \<noteq> - 1 then store_ttl1 ttl_time1 s3 else Inr s3) of
               Inl e \<Rightarrow> Inl e
             | Inr s4 \<Rightarrow>
                if stop_on_detection v \<and> (ttl_time0 \<noteq> - 1 \<or> ttl_time1 \<noteq> - 1) then
                  (case tomography s4 of
                     Inl e \<Rightarrow> Inl e
                   | Inr s5 \<Rightarrow> Inr (Break, s5\<lparr>photon_detected_this_cycle := True\<rparr>))
                else Inr (Continue, s4\<lparr>attempt_index := attempt_index s4 + 1\<rparr>)))"

subsection \<open>Cooling cycles, big cycles, the chunk\<close>

text \<open>The short cooling after the attempts of a cooling cycle.\<close>

definition cooling :: "hw \<Rightarrow> timeline \<Rightarrow> timeline" where
  "cooling h s = steps
     [delay 12000,
      dds_set h urukul0_ch0 50,
      dds_set_amplitude h urukul0_ch0 5,
      emit (SwOn urukul0_ch0),
      delay 12000,
      dds_set h urukul0_ch1 60,
      dds_set_amplitude h urukul0_ch1 5,
      emit (SwOn urukul0_ch1),
      emit (SwOff urukul0_ch0),
      emit (SwOff urukul0_ch1)] s"

definition cooling_cycle ::
  "variant \<Rightarrow> hw \<Rightarrow> config \<Rightarrow> kstate \<Rightarrow> error \<times> kstate + flow \<times> kstate" where
  "cooling_cycle v h cfg s =
     (case for_range (attempts_per_cooling cfg) (attempt v h) s of
        Inl e \<Rightarrow> Inl e
      | Inr s1 \<Rightarrow>
         if stop_on_detection v \<and> photon_detected_this_cycle s1 then Inr (Break, s1)
         else Inr (Continue, on_rtio (cooling h) s1))"

definition big_cycle ::
  "variant \<Rightarrow> hw \<Rightarrow> config \<Rightarrow> kstate \<Rightarrow> error \<times> kstate + flow \<times> kstate" where
  "big_cycle v h cfg s =
     (let s1 = on_rtio (steps [mot_load v h, atom_load h, configure_ch3 h]) s;
          s2 = (if stop_on_detection v then s1\<lparr>photon_detected_this_cycle := False\<rparr> else s1)
      in case for_range (num_cooling_cycles cfg) (cooling_cycle v h cfg) s2 of
           Inl e \<Rightarrow> Inl e
         | Inr s3 \<Rightarrow> Inr (Continue, on_rtio (break_realtime h) s3))"

text \<open>
  The kernel: reset, TTL directions, the local counters, then the big cycles. The value
  returned to the host is the tuple of counters of the final state.
\<close>

definition kernel_entry :: "hw \<Rightarrow> kstate \<Rightarrow> kstate" where
  "kernel_entry h s =
     (on_rtio (steps [core_reset h,
                      emit (TtlInput ttl0),
                      emit (TtlInput ttl1),
                      emit (TtlOutput ttl4),
                      emit (TtlOutput ttl7)]) s)
       \<lparr>attempt_no := 0,
        attempt_index := 0,
        ttl0_detected_count := 0,
        ttl1_detected_count := 0,
        tomo_count := 0\<rparr>"

definition run_chunk_experiment ::
  "variant \<Rightarrow> hw \<Rightarrow> config \<Rightarrow> kstate \<Rightarrow> error \<times> kstate + kstate" where
  "run_chunk_experiment v h cfg s =
     for_range (num_big_cycles_chunk cfg) (big_cycle v h cfg) (kernel_entry h s)"

definition chunk_result :: "kstate \<Rightarrow> nat \<times> nat \<times> nat" where
  "chunk_result s = (ttl0_detected_count s, ttl1_detected_count s, tomo_count s)"

section \<open>The host side: \<open>run\<close>\<close>

text \<open>
  \<open>chunk_max\<close> as \<open>run\<close> computes it: \<open>6 * self.num_big_cycles_chunk\<close> in Seq5.py
  (line 273) and Seq6.py (line 274),
  \<open>self.num_big_cycles_chunk * self.num_cooling_cycles * 10\<close> in Seq7.py (line 236).
\<close>

fun chunk_max :: "variant \<Rightarrow> config \<Rightarrow> nat" where
  "chunk_max Seq5 cfg = 6 * num_big_cycles_chunk cfg"
| "chunk_max Seq6 cfg = 6 * num_big_cycles_chunk cfg"
| "chunk_max Seq7 cfg = num_big_cycles_chunk cfg * num_cooling_cycles cfg * 10"

definition np_zeros :: "nat \<Rightarrow> int list" where
  "np_zeros n = replicate n 0"

text \<open>
  The experiment object as the kernel of a chunk receives it: fresh arrays of
  \<open>chunk_max\<close> zeros (Seq7 has no tomography arrays), an empty timeline.
\<close>

definition alloc :: "variant \<Rightarrow> config \<Rightarrow> kstate" where
  "alloc v cfg =
     \<lparr>rtio = \<lparr>now = 0, trace = []\<rparr>,
      attempt_no = 0,
      attempt_index = 0,
      ttl0_detected_count = 0,
      ttl1_detected_count = 0,
      tomo_count = 0,
      photon_detected_this_cycle = False,
      ttl0_detected_times = np_zeros (chunk_max v cfg),
      ttl0_detected_attempts = np_zeros (chunk_max v cfg),
      ttl1_detected_times = np_zeros (chunk_max v cfg),
      ttl1_detected_attempts = np_zeros (chunk_max v cfg),
      atom_tomo_times = (if stop_on_detection v then np_zeros (chunk_max v cfg) else []),
      atom_tomo_attempts = (if stop_on_detection v then np_zeros (chunk_max v cfg) else [])\<rparr>"

text \<open>
  Modelled from the spec: the HDF5 file of Seq6.py is h5py's, not the repository's. It is
  the spec's per-chunk persistence sink: append-only, with a flush after which what was
  written is durable. The model keeps what was written since the last flush apart from
  what a flush has made durable, and logs every call. Closing is only logged.
\<close>

datatype h5op = CreateGroup nat | CreateDataset nat string "int list" | Flush | Close

record h5file =
  calls :: "h5op list"
  buffered :: "h5op list"
  on_disk :: "h5op list"

definition h5_write :: "h5op \<Rightarrow> h5file \<Rightarrow> h5file" where
  "h5_write x f = f\<lparr>calls := calls f @ [x], buffered := buffered f @ [x]\<rparr>"

definition h5_flush :: "h5file \<Rightarrow> h5file" where
  "h5_flush f = f\<lparr>calls := calls f @ [Flush], buffered := [], on_disk := on_disk f @ buffered f\<rparr>"

definition h5_close :: "h5file \<Rightarrow> h5file" where
  "h5_close f = f\<lparr>calls := calls f @ [Close]\<rparr>"

text \<open>
  The host's state: the experiment object with its arrays as the last kernel call left
  them, the dataset manager, and the HDF5 file. A dataset \<open>f"name_chunk_{chunk_idx}"\<close>
  is keyed by the pair of the name and the chunk index.
\<close>

record host =
  obj :: kstate
  datasets :: "string \<times> nat \<rightharpoonup> int list"
  h5file :: h5file

definition set_dataset :: "string \<times> nat \<Rightarrow> int list \<Rightarrow> host \<Rightarrow> host" where
  "set_dataset key val hs = hs\<lparr>datasets := (datasets hs)(key \<mapsto> val)\<rparr>"

definition on_h5file :: "(h5file \<Rightarrow> h5file) \<Rightarrow> host \<Rightarrow> host" where
  "on_h5file f hs = hs\<lparr>h5file := f (h5file hs)\<rparr>"

text \<open>
  The retrieval methods \<open>retrieve_ttl0_detections\<close>, \<open>retrieve_ttl1_detections\<close> and
  \<open>retrieve_atom_tomo_data\<close> (Seq5.py lines 55-79, Seq6.py lines 45-69, the first two
  in Seq7.py lines 50-66): each returns \<open>.tolist()\<close> of two whole arrays, every slot of
  them, used or not.
\<close>

definition retrieve_ttl0_detections :: "kstate \<Rightarrow> int list \<times> int list" where
  "retrieve_ttl0_detections s = (ttl0_detected_times s, ttl0_detected_attempts s)"

definition retrieve_ttl1_detections :: "kstate \<Rightarrow> int list \<times> int list" where
  "retrieve_ttl1_detections s = (ttl1_detected_times s, ttl1_detected_attempts s)"

definition retrieve_atom_tomo_data :: "kstate \<Rightarrow> int list \<times> int list" where
  "retrieve_atom_tomo_data s = (atom_tomo_times s, atom_tomo_attempts s)"

text \<open>
  What \<open>run\<close> does with a chunk after its kernel has returned: retrieve the whole
  arrays as lists, slice each list to the count the kernel returned (\<open>raw[:count]\<close>),
  store the slices in the dataset manager and, in Seq6, in a group of the HDF5 file, and
  flush. Seq7 has no tomography data: it neither retrieves nor stores any, and the two
  bindings for it are unused there.
\<close>

definition store_chunk :: "variant \<Rightarrow> nat \<Rightarrow> host \<Rightarrow> host" where
  "store_chunk v chunk_idx hs =
     (let (ttl0_count, ttl1_count, n_tomo) = chunk_result (obj hs);
          (ttl0_detected_times_raw, ttl0_detected_attempts_raw) = retrieve_ttl0_detections (obj hs);
          (ttl1_detected_times_raw, ttl1_detected_attempts_raw) = retrieve_ttl1_detections (obj hs);
          (tomo_times_raw, tomo_attempts_raw) = retrieve_atom_tomo_data (obj hs);
          used_ttl0_times = take ttl0_count ttl0_detected_times_raw;
          used_ttl0_attempts = take ttl0_count ttl0_detected_attempts_raw;
          used_ttl1_times = take ttl1_count ttl1_detected_times_raw;
          used_ttl1_attempts = take ttl1_count ttl1_detected_attempts_raw;
          used_tomo_times = take n_tomo tomo_times_raw;
          used_tomo_attempts = take n_tomo tomo_attempts_raw
      in steps
          ([set_dataset (''ttl0_detected_times_chunk_'', chunk_idx) used_ttl0_times,
            set_dataset (''ttl0_detected_attempts_chunk_'', chunk_idx) used_ttl0_attempts,
            set_dataset (''ttl1_detected_times_chunk_'', chunk_idx) used_ttl1_times,
            set_dataset (''ttl1_detected_attempts_chunk_'', chunk_idx) used_ttl1_attempts]
           @ (if stop_on_detection v
              then [set_dataset (''atom_tomo_times_chunk_'', chunk_idx) used_tomo_times,
                    set_dataset (''atom_tomo_attempts_chunk_'', chunk_idx) used_tomo_attempts]
              else [])
           @ (if v = Seq6
              then [on_h5file (h5_write (CreateGroup chunk_idx)),
                    on_h5file (h5_write (CreateDataset chunk_idx ''ttl0_times'' used_ttl0_times)),
                    on_h5file (h5_write (CreateDataset chunk_idx ''ttl0_attempts'' used_ttl0_attempts)),
                    on_h5file (h5_write (CreateDataset chunk_idx ''ttl1_times'' used_ttl1_times)),
                    on_h5file (h5_write (CreateDataset chunk_idx ''ttl1_attempts'' used_ttl1_attempts)),
                    on_h5file (h5_write (CreateDataset chunk_idx ''tomo_times'' used_tomo_times)),
                    on_h5file (h5_write (CreateDataset chunk_idx ''tomo_attempts'' used_tomo_attempts)),
                    on_h5file h5_flush]
              else [])) hs)"

text \<open>
  The chunk loop \<open>for chunk_idx in range(self.num_chunks)\<close>. \<open>kern chunk_idx\<close> is the
  outcome of the kernel call of that chunk on freshly allocated arrays; an exception
  leaves the loop with the object as the kernel left it.
\<close>

fun run_chunks ::
  "variant \<Rightarrow> (nat \<Rightarrow> error \<times> kstate + kstate) \<Rightarrow> nat \<Rightarrow> nat \<Rightarrow> host \<Rightarrow> error \<times> host + host" where
  "run_chunks v kern chunk_idx 0 hs = Inr hs"
| "run_chunks v kern chunk_idx (Suc n) hs =
     (case kern chunk_idx of
        Inl (e, s) \<Rightarrow> Inl (e, hs\<lparr>obj := s\<rparr>)
      | Inr s \<Rightarrow> run_chunks v kern (Suc chunk_idx) n (store_chunk v chunk_idx (hs\<lparr>obj := s\<rparr>)))"

text \<open>\<open>h5py.File(filename, "w")\<close>: a new, empty file.\<close>

definition h5_open :: h5file where
  "h5_open = \<lparr>calls = [], buffered = [], on_disk = []\<rparr>"

definition host_init :: "variant \<Rightarrow> config \<Rightarrow> host" where
  "host_init v cfg = \<lparr>obj = alloc v cfg, datasets = Map.empty, h5file = h5_open\<rparr>"

text \<open>
  \<open>run\<close> with the kernel's outcomes as a parameter. Seq6 wraps the loop in
  \<open>try: ... finally: self.h5file.close()\<close>.
\<close>

definition run_with ::
  "variant \<Rightarrow> (nat \<Rightarrow> error \<times> kstate + kstate) \<Rightarrow> config \<Rightarrow> error \<times> host + host" where
  "run_with v kern cfg =
     (let finally = (if v = Seq6 then on_h5file h5_close else (\<lambda>hs. hs)) in
      case run_chunks v kern 0 (num_chunks cfg) (host_init v cfg) of
        Inl (e, hs) \<Rightarrow> Inl (e, finally hs)
      | Inr hs \<Rightarrow> Inr (finally hs))"

text \<open>\<open>run\<close>: the kernel of chunk \<open>i\<close> meets the hardware \<open>hws i\<close>.\<close>

definition run :: "variant \<Rightarrow> (nat \<Rightarrow> hw) \<Rightarrow> config \<Rightarrow> error \<times> host + host" where
  "run v hws cfg =
     run_with v (\<lambda>chunk_idx. run_chunk_experiment v (hws chunk_idx) cfg (alloc v cfg)) cfg"

section \<open>\<open>FullExperimentSequence13\<close> (Seq2.py)\<close>

text \<open>
  The fixed-repetition experiment: the kernel \<open>run\<close> hands both time stamps of every
  repetition to the host through the RPCs \<open>record_time_tag_0\<close> and
  \<open>record_time_tag_1\<close>, which append to two lists; \<open>write_to_csv\<close> pairs the lists by
  index. \<open>reps_done\<close> counts the gate windows read, as \<open>attempt_no\<close> does above.
\<close>

record seq13 =
  rtio13 :: timeline
  reps_done :: nat
  time_tags_0 :: "int list"
  time_tags_1 :: "int list"

definition on_rtio13 :: "(timeline \<Rightarrow> timeline) \<Rightarrow> seq13 \<Rightarrow> seq13" where
  "on_rtio13 f s = s\<lparr>rtio13 := f (rtio13 s)\<rparr>"

definition record_time_tag_0 :: "int \<Rightarrow> seq13 \<Rightarrow> seq13" where
  "record_time_tag_0 t_mu s = s\<lparr>time_tags_0 := time_tags_0 s @ [t_mu]\<rparr>"

definition record_time_tag_1 :: "int \<Rightarrow> seq13 \<Rightarrow> seq13" where
  "record_time_tag_1 t_mu s = s\<lparr>time_tags_1 := time_tags_1 s @ [t_mu]\<rparr>"

definition repetitions_per_cycle :: nat where "repetitions_per_cycle = 50"
definition num_cycles :: nat where "num_cycles = 10"

text \<open>Seq2.py lines 72-101: the MOT and the atom are loaded once.\<close>

definition load13 :: "hw \<Rightarrow> timeline \<Rightarrow> timeline" where
  "load13 h s = steps
     [break_realtime h,
      emit (TtlOn ttl4),
      emit (TtlOn ttl5),
      emit (TtlOn ttl6),
      dds_set h urukul0_ch0 100,
      dds_set_amplitude h urukul0_ch0 8,
      emit (SwOn urukul0_ch0),
      dds_set h urukul0_ch1 80,
      dds_set_amplitude h urukul0_ch1 5,
      emit (SwOn urukul0_ch1),
      delay mot_load_time,
      emit (SwOff urukul0_ch0),
      emit (SwOff urukul0_ch1),
      emit (TtlOff ttl4),
      emit (TtlOff ttl5),
      emit (TtlOff ttl6),
      dds_set h urukul0_ch2 120,
      dds_set_amplitude h urukul0_ch2 7,
      emit (SwOn urukul0_ch2),
      delay atom_load_time,
      emit (SwOff urukul0_ch2)] s"

text \<open>Seq2.py lines 112-140: pumping, excitation, reference pulse and gates.\<close>

definition repetition_pulses13 :: "hw \<Rightarrow> timeline \<Rightarrow> timeline" where
  "repetition_pulses13 h s = steps
     [break_realtime h,
      dds_set h urukul0_ch3 90,
      dds_set_amplitude h urukul0_ch3 6,
      emit (SwOn urukul0_ch3),
      delay optical_pump_time,
      emit (SwOff urukul0_ch3),
      emit (SwOn urukul0_ch3),
      delay excitation_time,
      emit (SwOff urukul0_ch3),
      ttl_pulse ttl7 pulse_width,
      gate_rising_parallel 100] s"

definition repetition13 :: "hw \<Rightarrow> seq13 \<Rightarrow> seq13" where
  "repetition13 h s =
     (let s1 = on_rtio13 (repetition_pulses13 h) s;
          (ttl_time0, ttl_time1) = gates h (reps_done s1);
          s2 = s1\<lparr>reps_done := Suc (reps_done s1)\<rparr>
      in record_time_tag_1 ttl_time1 (record_time_tag_0 ttl_time0 s2))"

text \<open>Seq2.py lines 157-169: the cooling between cycles.\<close>

definition cooling13 :: "hw \<Rightarrow> timeline \<Rightarrow> timeline" where
  "cooling13 h s = steps
     [break_realtime h,
      dds_set h urukul0_ch0 50,
      dds_set_amplitude h urukul0_ch0 5,
      emit (SwOn urukul0_ch0),
      dds_set h urukul0_ch1 60,
      dds_set_amplitude h urukul0_ch1 5,
      emit (SwOn urukul0_ch1),
      emit (SwOff urukul0_ch0),
      emit (SwOff urukul0_ch1)] s"

definition cycle13 :: "hw \<Rightarrow> seq13 \<Rightarrow> seq13" where
  "cycle13 h s = on_rtio13 (cooling13 h) ((repetition13 h ^^ repetitions_per_cycle) s)"

text \<open>The kernel up to the call of \<open>write_to_csv\<close>.\<close>

definition kernel13 :: "hw \<Rightarrow> seq13 \<Rightarrow> seq13" where
  "kernel13 h s =
     on_rtio13 (break_realtime h)
       ((cycle13 h ^^ num_cycles)
          (on_rtio13
             (steps [core_reset h,
                     emit (TtlInput ttl0),
                     emit (TtlInput ttl1),
                     emit (TtlOutput ttl7),
                     load13 h]) s))"

text \<open>
  \<open>write_to_csv\<close>: the rows after the header, one for every index of \<open>time_tags_0\<close>;
  reading \<open>time_tags_1[i]\<close> past its end raises.
\<close>

fun csv_rows :: "int list \<Rightarrow> int list \<Rightarrow> nat \<Rightarrow> nat \<Rightarrow> error + (nat \<times> int \<times> int) list" where
  "csv_rows xs ys i 0 = Inr []"
| "csv_rows xs ys i (Suc n) =
     (if i < length xs \<and> i < length ys then
        (case csv_rows xs ys (Suc i) n of
           Inl e \<Rightarrow> Inl e
         | Inr rows \<Rightarrow> Inr ((i + 1, xs ! i, ys ! i) # rows))
      else Inl IndexError)"

definition write_to_csv :: "seq13 \<Rightarrow> error + (nat \<times> int \<times> int) list" where
  "write_to_csv s = csv_rows (time_tags_0 s) (time_tags_1 s) 0 (length (time_tags_0 s))"

text \<open>\<open>build\<close> leaves both lists empty.\<close>

definition build13 :: seq13 where
  "build13 = \<lparr>rtio13 = \<lparr>now = 0, trace = []\<rparr>, reps_done = 0, time_tags_0 = [], time_tags_1 = []\<rparr>"

definition run13 :: "hw \<Rightarrow> seq13 \<Rightarrow> error + (nat \<times> int \<times> int) list" where
  "run13 h s = write_to_csv (kernel13 h s)"

section \<open>Concrete inputs\<close>

text \<open>
  A hardware environment with given gate readings, and a configuration with the given
  numbers of chunks, big cycles per chunk, cooling cycles and attempts.
\<close>

definition demo_hw :: "(nat \<Rightarrow> int \<times> int) \<Rightarrow> hw" where
  "demo_hw g =
     \<lparr>gates = g, rtio_min_now = (\<lambda>n. 125000 + 1000000 * int n), set_mu = 1248, set_amplitude_mu = 1248\<rparr>"

definition demo_cfg :: "nat \<Rightarrow> nat \<Rightarrow> nat \<Rightarrow> nat \<Rightarrow> config" where
  "demo_cfg n b c a =
     \<lparr>num_big_cycles_chunk = b, num_chunks = n, num_cooling_cycles = c, attempts_per_cooling = a\<rparr>"

section \<open>Notions used in the statements\<close>

text \<open>The operations issued so far, without their times.\<close>

definition issued :: "timeline \<Rightarrow> op list" where
  "issued t = map snd (trace t)"

fun is_wait :: "op \<Rightarrow> bool" where
  "is_wait (HostMotLoadWait ms) = True"
| "is_wait x = False"

text \<open>
  A timeline is resynchronised after its host waits when every \<open>HostMotLoadWait\<close> in
  it is directly followed by a \<open>BreakRealtime\<close>, and everything issued after that
  \<open>BreakRealtime\<close>, as well as the cursor itself, is at or past the bound the hardware
  gave to that \<open>break_realtime\<close> call.
\<close>

definition resynced :: "hw \<Rightarrow> timeline \<Rightarrow> bool" where
  "resynced h t =
     list_all
       (\<lambda>i. is_wait (snd (trace t ! i)) \<longrightarrow>
          Suc i < length (trace t)
          \<and> snd (trace t ! Suc i) = BreakRealtime
          \<and> list_all (\<lambda>j. rtio_min_now h (Suc i) \<le> fst (trace t ! j)) [Suc (Suc i)..<length (trace t)]
          \<and> rtio_min_now h (Suc i) \<le> now t)
       [0..<length (trace t)]"

text \<open>
  A property of timelines that every block of scheduling statements of the kernel
  keeps.
\<close>

definition preserved :: "(timeline \<Rightarrow> bool) \<Rightarrow> (timeline \<Rightarrow> timeline) \<Rightarrow> bool" where
  "preserved P f = (\<forall>t. P t \<longrightarrow> P (f t))"

definition blocks_preserve :: "hw \<Rightarrow> (timeline \<Rightarrow> bool) \<Rightarrow> bool" where
  "blocks_preserve h P =
     (preserved P (atom_load h) \<and> preserved P (configure_ch3 h)
      \<and> preserved P attempt_pulses \<and> preserved P tomography_pulse \<and> preserved P (cooling h)
      \<and> preserved P (break_realtime h))"

text \<open>
  How a kernel function ends: in a state with \<open>Q\<close>, whether it returns or raises, and
  what it raises is an \<open>IndexError\<close>.
\<close>

definition ends_with :: "(kstate \<Rightarrow> bool) \<Rightarrow> error \<times> kstate + kstate \<Rightarrow> bool" where
  "ends_with Q r = (case r of Inl (e, s) \<Rightarrow> e = IndexError \<and> Q s | Inr s \<Rightarrow> Q s)"

definition step_with :: "(kstate \<Rightarrow> bool) \<Rightarrow> error \<times> kstate + flow \<times> kstate \<Rightarrow> bool" where
  "step_with Q r = (case r of Inl (e, s) \<Rightarrow> e = IndexError \<and> Q s | Inr (f, s) \<Rightarrow> Q s)"

text \<open>The host waits issued so far.\<close>

definition waits :: "timeline \<Rightarrow> nat" where
  "waits t = length (filter is_wait (issued t))"

text \<open>The operations of each block of the kernel, in the order the source issues them.\<close>

definition entry_ops :: "op list" where
  "entry_ops = [CoreReset, TtlInput ttl0, TtlInput ttl1, TtlOutput ttl4, TtlOutput ttl7]"

definition load_ops :: "variant \<Rightarrow> op list" where
  "load_ops v =
     [BreakRealtime, TtlOn ttl4, TtlOn ttl5, TtlOn ttl6,
      DdsSet urukul0_ch0 100, DdsSetAmplitude urukul0_ch0 8, SwOn urukul0_ch0,
      DdsSet urukul0_ch1 80, DdsSetAmplitude urukul0_ch1 5, SwOn urukul0_ch1]
     @ (if host_wait v then [BreakRealtime, HostMotLoadWait 500, BreakRealtime] else [])
     @ [SwOff urukul0_ch0, SwOff urukul0_ch1, TtlOff ttl4, TtlOff ttl5, TtlOff ttl6,
        DdsSet urukul0_ch2 120, DdsSetAmplitude urukul0_ch2 7, SwOn urukul0_ch2, SwOff urukul0_ch2,
        DdsSet urukul0_ch3 90, DdsSetAmplitude urukul0_ch3 6, SwOn urukul0_ch3]"

definition attempt_ops :: "op list" where
  "attempt_ops =
     [SwOn urukul0_ch3, SwOff urukul0_ch3, SwOn urukul0_ch3, SwOff urukul0_ch3,
      TtlOn ttl7, TtlOff ttl7, GateRising ttl0 100, GateRising ttl1 100]"

definition tomography_ops :: "op list" where
  "tomography_ops = [TtlOn ttl4, TtlOff ttl4]"

definition cooling_ops :: "op list" where
  "cooling_ops =
     [DdsSet urukul0_ch0 50, DdsSetAmplitude urukul0_ch0 5, SwOn urukul0_ch0,
      DdsSet urukul0_ch1 60, DdsSetAmplitude urukul0_ch1 5, SwOn urukul0_ch1,
      SwOff urukul0_ch0, SwOff urukul0_ch1]"

text \<open>
  What a big cycle without a detection issues: the load phase, then
  \<open>num_cooling_cycles\<close> times \<open>attempts_per_cooling\<close> attempts and one cooling, then
  the closing \<open>break_realtime\<close>.
\<close>

definition quiet_cooling_cycle_ops :: "config \<Rightarrow> op list" where
  "quiet_cooling_cycle_ops cfg =
     concat (replicate (attempts_per_cooling cfg) attempt_ops) @ cooling_ops"

definition quiet_big_cycle_ops :: "variant \<Rightarrow> config \<Rightarrow> op list" where
  "quiet_big_cycle_ops v cfg =
     load_ops v
     @ concat (replicate (num_cooling_cycles cfg) (quiet_cooling_cycle_ops cfg))
     @ [BreakRealtime]"

text \<open>The three logs of a state: count and arrays of each.\<close>

definition records ::
  "kstate \<Rightarrow> (nat \<times> int list \<times> int list) \<times> (nat \<times> int list \<times> int list) \<times> (nat \<times> int list \<times> int list)" where
  "records s =
     ((ttl0_detected_count s, ttl0_detected_times s, ttl0_detected_attempts s),
      (ttl1_detected_count s, ttl1_detected_times s, ttl1_detected_attempts s),
      (tomo_count s, atom_tomo_times s, atom_tomo_attempts s))"

text \<open>
  \<open>quiet_step s n ops s'\<close>: from \<open>s\<close> to \<open>s'\<close> the kernel has run \<open>n\<close> attempts,
  counted each in \<open>attempt_index\<close>, issued exactly \<open>ops\<close> and left the logs alone.
\<close>

definition quiet_step :: "kstate \<Rightarrow> nat \<Rightarrow> op list \<Rightarrow> kstate \<Rightarrow> bool" where
  "quiet_step s n ops s' =
     (records s' = records s
      \<and> attempt_no s' = attempt_no s + n
      \<and> attempt_index s' = attempt_index s + int n
      \<and> issued (rtio s') = issued (rtio s) @ ops)"

text \<open>
  The attempts among the first \<open>n\<close> of a chunk whose gate on ttl0 (on ttl1) saw an edge,
  and the records they should leave: time stamp and attempt number.
\<close>

definition hits0 :: "hw \<Rightarrow> nat \<Rightarrow> nat list" where
  "hits0 h n = filter (\<lambda>k. fst (gates h k) \<noteq> - 1) [0..<n]"

definition hits1 :: "hw \<Rightarrow> nat \<Rightarrow> nat list" where
  "hits1 h n = filter (\<lambda>k. snd (gates h k) \<noteq> - 1) [0..<n]"

definition log0 :: "hw \<Rightarrow> nat \<Rightarrow> (int \<times> int) list" where
  "log0 h n = map (\<lambda>k. (fst (gates h k), int k)) (hits0 h n)"

definition log1 :: "hw \<Rightarrow> nat \<Rightarrow> (int \<times> int) list" where
  "log1 h n = map (\<lambda>k. (snd (gates h k), int k)) (hits1 h n)"

text \<open>The records a state holds: the first \<open>count\<close> slots of the two arrays of a log.\<close>

definition logged0 :: "kstate \<Rightarrow> (int \<times> int) list" where
  "logged0 s =
     zip (take (ttl0_detected_count s) (ttl0_detected_times s))
         (take (ttl0_detected_count s) (ttl0_detected_attempts s))"

definition logged1 :: "kstate \<Rightarrow> (int \<times> int) list" where
  "logged1 s =
     zip (take (ttl1_detected_count s) (ttl1_detected_times s))
         (take (ttl1_detected_count s) (ttl1_detected_attempts s))"

text \<open>
  Seq7 with arrays of capacity \<open>C\<close>, after \<open>n\<close> attempts that all went through: the
  attempt index is \<open>n\<close>, and each log holds, in order, exactly the detections of its
  channel among these attempts, none more than \<open>C\<close>.
\<close>

definition filled7 :: "hw \<Rightarrow> nat \<Rightarrow> nat \<Rightarrow> kstate \<Rightarrow> bool" where
  "filled7 h C n s =
     (attempt_no s = n \<and> attempt_index s = int n
      \<and> length (ttl0_detected_times s) = C \<and> length (ttl0_detected_attempts s) = C
      \<and> length (ttl1_detected_times s) = C \<and> length (ttl1_detected_attempts s) = C
      \<and> ttl0_detected_count s = length (hits0 h n) \<and> length (hits0 h n) \<le> C
      \<and> logged0 s = log0 h n
      \<and> ttl1_detected_count s = length (hits1 h n) \<and> length (hits1 h n) \<le> C
      \<and> logged1 s = log1 h n)"

text \<open>
  Seq7 at the raise in attempt number \<open>k\<close> (counted from 0): either ttl0 saw an edge
  there, its log held \<open>C\<close> records already, and both logs are as they were before the
  attempt; or ttl1 did, its log held \<open>C\<close> records and is as it was, and the record of
  ttl0 for this attempt, if there is one, has been stored.
\<close>

definition overflow7 :: "hw \<Rightarrow> nat \<Rightarrow> nat \<Rightarrow> kstate \<Rightarrow> bool" where
  "overflow7 h C k s =
     (attempt_no s = Suc k \<and> attempt_index s = int k
      \<and> (fst (gates h k) \<noteq> - 1 \<and> length (hits0 h k) = C
           \<and> ttl0_detected_count s = C \<and> logged0 s = log0 h k
           \<and> ttl1_detected_count s = length (hits1 h k) \<and> logged1 s = log1 h k
         \<or> snd (gates h k) \<noteq> - 1 \<and> length (hits1 h k) = C
           \<and> ttl1_detected_count s = C \<and> logged1 s = log1 h k
           \<and> ttl0_detected_count s = length (hits0 h (Suc k)) \<and> logged0 s = log0 h (Suc k)))"

text \<open>
  What Seq6 writes into the HDF5 file for chunk \<open>i\<close> when the kernel has left the
  object in state \<open>s\<close>: the group and its six datasets, each the used part of an array.
\<close>

definition chunk_entries :: "nat \<Rightarrow> kstate \<Rightarrow> h5op list" where
  "chunk_entries i s =
     [CreateGroup i,
      CreateDataset i ''ttl0_times'' (take (ttl0_detected_count s) (ttl0_detected_times s)),
      CreateDataset i ''ttl0_attempts'' (take (ttl0_detected_count s) (ttl0_detected_attempts s)),
      CreateDataset i ''ttl1_times'' (take (ttl1_detected_count s) (ttl1_detected_times s)),
      CreateDataset i ''ttl1_attempts'' (take (ttl1_detected_count s) (ttl1_detected_attempts s)),
      CreateDataset i ''tomo_times'' (take (tomo_count s) (atom_tomo_times s)),
      CreateDataset i ''tomo_attempts'' (take (tomo_count s) (atom_tomo_attempts s))]"

text \<open>
  A crash cuts the sequence of calls on the file somewhere. \<open>replay\<close> runs a sequence
  of calls on a file; what is on disk after a crash is what replaying the calls made
  until then has put on disk.
\<close>

fun replay :: "h5op list \<Rightarrow> h5file \<Rightarrow> h5file" where
  "replay [] f = f"
| "replay (Flush # xs) f = replay xs (h5_flush f)"
| "replay (Close # xs) f = replay xs (h5_close f)"
| "replay (x # xs) f = replay xs (h5_write x f)"

fun is_flush :: "h5op \<Rightarrow> bool" where
  "is_flush Flush = True"
| "is_flush x = False"

definition flushes :: "h5op list \<Rightarrow> nat" where
  "flushes xs = length (filter is_flush xs)"

text \<open>
  \<open>within L c s\<close>: the six arrays of \<open>s\<close> have \<open>L\<close> slots each, and no log holds more
  than \<open>c\<close> records.
\<close>

definition within :: "nat \<Rightarrow> nat \<Rightarrow> kstate \<Rightarrow> bool" where
  "within L c s =
     (length (ttl0_detected_times s) = L \<and> length (ttl0_detected_attempts s) = L
      \<and> length (ttl1_detected_times s) = L \<and> length (ttl1_detected_attempts s) = L
      \<and> length (atom_tomo_times s) = L \<and> length (atom_tomo_attempts s) = L
      \<and> ttl0_detected_count s \<le> c \<and> ttl1_detected_count s \<le> c \<and> tomo_count s \<le> c)"

text \<open>
  Two states agree up to unused slots when they differ at most in what the arrays hold
  at and beyond the counts.
\<close>

definition agree :: "kstate \<Rightarrow> kstate \<Rightarrow> bool" where
  "agree s t =
     (rtio s = rtio t \<and> attempt_no s = attempt_no t \<and> attempt_index s = attempt_index t
      \<and> photon_detected_this_cycle s = photon_detected_this_cycle t
      \<and> ttl0_detected_count s = ttl0_detected_count t
      \<and> ttl1_detected_count s = ttl1_detected_count t
      \<and> tomo_count s = tomo_count t
      \<and> length (ttl0_detected_times s) = length (ttl0_detected_times t)
      \<and> length (ttl0_detected_attempts s) = length (ttl0_detected_attempts t)
      \<and> length (ttl1_detected_times s) = length (ttl1_detected_times t)
      \<and> length (ttl1_detected_attempts s) = length (ttl1_detected_attempts t)
      \<and> length (atom_tomo_times s) = length (atom_tomo_times t)
      \<and> length (atom_tomo_attempts s) = length (atom_tomo_attempts t)
      \<and> take (ttl0_detected_count s) (ttl0_detected_times s) = take (ttl0_detected_count t) (ttl0_detected_times t)
      \<and> take (ttl0_detected_count s) (ttl0_detected_attempts s) = take (ttl0_detected_count t) (ttl0_detected_attempts t)
      \<and> take (ttl1_detected_count s) (ttl1_detected_times s) = take (ttl1_detected_count t) (ttl1_detected_times t)
      \<and> take (ttl1_detected_count s) (ttl1_detected_attempts s) = take (ttl1_detected_count t) (ttl1_detected_attempts t)
      \<and> take (tomo_count s) (atom_tomo_times s) = take (tomo_count t) (atom_tomo_times t)
      \<and> take (tomo_count s) (atom_tomo_attempts s) = take (tomo_count t) (atom_tomo_attempts t))"

text \<open>
  The datasets \<open>run\<close> stores for chunk \<open>i\<close> when the kernel has left the object in state
  \<open>s\<close>: each array cut to the count the kernel returned for its log.
\<close>

definition used_slices :: "nat \<Rightarrow> kstate \<Rightarrow> ((string \<times> nat) \<times> int list) list" where
  "used_slices i s =
     [((''ttl0_detected_times_chunk_'', i), take (fst (chunk_result s)) (ttl0_detected_times s)),
      ((''ttl0_detected_attempts_chunk_'', i), take (fst (chunk_result s)) (ttl0_detected_attempts s)),
      ((''ttl1_detected_times_chunk_'', i), take (fst (snd (chunk_result s))) (ttl1_detected_times s)),
      ((''ttl1_detected_attempts_chunk_'', i), take (fst (snd (chunk_result s))) (ttl1_detected_attempts s)),
      ((''atom_tomo_times_chunk_'', i), take (snd (snd (chunk_result s))) (atom_tomo_times s)),
      ((''atom_tomo_attempts_chunk_'', i), take (snd (snd (chunk_result s))) (atom_tomo_attempts s))]"

text \<open>
  The six lists \<open>run\<close> retrieves from the object after the kernel of a chunk has
  returned, in the order of the datasets.
\<close>

definition retrieved :: "kstate \<Rightarrow> int list list" where
  "retrieved s =
     (let (ttl0_detected_times_raw, ttl0_detected_attempts_raw) = retrieve_ttl0_detections s;
          (ttl1_detected_times_raw, ttl1_detected_attempts_raw) = retrieve_ttl1_detections s;
          (tomo_times_raw, tomo_attempts_raw) = retrieve_atom_tomo_data s
      in [ttl0_detected_times_raw, ttl0_detected_attempts_raw,
          ttl1_detected_times_raw, ttl1_detected_attempts_raw,
          tomo_times_raw, tomo_attempts_raw])"

text \<open>The object of a chunk with other contents in its freshly allocated arrays.\<close>

definition with_arrays :: "int list \<Rightarrow> int list \<Rightarrow> int list \<Rightarrow> int list \<Rightarrow> int list \<Rightarrow> int list \<Rightarrow> kstate \<Rightarrow> kstate" where
  "with_arrays a0 b0 a1 b1 at bt s =
     s\<lparr>ttl0_detected_times := a0, ttl0_detected_attempts := b0,
       ttl1_detected_times := a1, ttl1_detected_attempts := b1,
       atom_tomo_times := at, atom_tomo_attempts := bt\<rparr>"

text \<open>
  \<open>refilled s t\<close>: \<open>t\<close> is \<open>s\<close> with other contents in its six arrays, each of the
  length it has in \<open>s\<close>.
\<close>

definition refilled :: "kstate \<Rightarrow> kstate \<Rightarrow> bool" where
  "refilled s t =
     (t = with_arrays (ttl0_detected_times t) (ttl0_detected_attempts t)
            (ttl1_detected_times t) (ttl1_detected_attempts t)
            (atom_tomo_times t) (atom_tomo_attempts t) s
      \<and> length (ttl0_detected_times t) = length (ttl0_detected_times s)
      \<and> length (ttl0_detected_attempts t) = length (ttl0_detected_attempts s)
      \<and> length (ttl1_detected_times t) = length (ttl1_detected_times s)
      \<and> length (ttl1_detected_attempts t) = length (ttl1_detected_attempts s)
      \<and> length (atom_tomo_times t) = length (atom_tomo_times s)
      \<and> length (atom_tomo_attempts t) = length (atom_tomo_attempts s))"

section \<open>Properties\<close>

subsection \<open>Loops and stores\<close>

text \<open>
  The invariant rule for \<open>for_range\<close>: \<open>I j\<close> holds before iteration \<open>j\<close>, \<open>Q\<close> after
  the loop (left by \<open>break\<close> or run to its end), \<open>E\<close> of whatever is raised.
\<close>

lemma for_range_rule:
  assumes "I 0 s"
    and "\<And>j t. j < n \<Longrightarrow> I j t \<Longrightarrow>
           (case body t of Inl e \<Rightarrow> E e | Inr (Continue, t') \<Rightarrow> I (Suc j) t' | Inr (Break, t') \<Rightarrow> Q t')"
    and "\<And>t. I n t \<Longrightarrow> Q t"
  shows "case for_range n body s of Inl e \<Rightarrow> E e | Inr s' \<Rightarrow> Q s'"
  using assms
proof (induction n arbitrary: I s)
  case 0
  then show ?case by simp
next
  case (Suc n)
  have b: "case body s of Inl e \<Rightarrow> E e | Inr (Continue, t') \<Rightarrow> I (Suc 0) t' | Inr (Break, t') \<Rightarrow> Q t'"
    using Suc.prems(2)[of 0 s] Suc.prems(1) by simp
  show ?case
  proof (cases "body s")
    case (Inl e)
    with b show ?thesis by simp
  next
    case (Inr p)
    obtain f t where p: "p = (f, t)" by (cases p)
    show ?thesis
    proof (cases f)
      case Break
      with b Inr p show ?thesis by simp
    next
      case Continue
      with b Inr p have i1: "I (Suc 0) t" by simp
      have "case for_range n body t of Inl e \<Rightarrow> E e | Inr s' \<Rightarrow> Q s'"
      proof (rule Suc.IH[where I = "\<lambda>j. I (Suc j)"])
        show "I (Suc 0) t" by (rule i1)
      next
        fix j u assume "j < n" "I (Suc j) u"
        then show "case body u of Inl e \<Rightarrow> E e | Inr (Continue, t') \<Rightarrow> I (Suc (Suc j)) t' | Inr (Break, t') \<Rightarrow> Q t'"
          using Suc.prems(2)[of "Suc j" u] by simp
      next
        fix u assume "I (Suc n) u" then show "Q u" by (rule Suc.prems(3))
      qed
      with Inr p Continue show ?thesis by simp
    qed
  qed
qed

lemma store_ttl0_ok:
  assumes "ttl0_detected_count s < length (ttl0_detected_times s)"
    and "ttl0_detected_count s < length (ttl0_detected_attempts s)"
  shows "store_ttl0 t s =
     Inr (s\<lparr>ttl0_detected_times := (ttl0_detected_times s)[ttl0_detected_count s := t],
            ttl0_detected_attempts := (ttl0_detected_attempts s)[ttl0_detected_count s := attempt_index s],
            ttl0_detected_count := Suc (ttl0_detected_count s)\<rparr>)"
  using assms by (simp add: store_ttl0_def set_item_def)

lemma store_ttl1_ok:
  assumes "ttl1_detected_count s < length (ttl1_detected_times s)"
    and "ttl1_detected_count s < length (ttl1_detected_attempts s)"
  shows "store_ttl1 t s =
     Inr (s\<lparr>ttl1_detected_times := (ttl1_detected_times s)[ttl1_detected_count s := t],
            ttl1_detected_attempts := (ttl1_detected_attempts s)[ttl1_detected_count s := attempt_index s],
            ttl1_detected_count := Suc (ttl1_detected_count s)\<rparr>)"
  using assms by (simp add: store_ttl1_def set_item_def)

lemma tomography_ok:
  assumes "tomo_count s < length (atom_tomo_times s)"
    and "tomo_count s < length (atom_tomo_attempts s)"
  shows "tomography s =
     Inr (s\<lparr>rtio := tomography_pulse (rtio s),
            atom_tomo_times := (atom_tomo_times s)[tomo_count s := now (rtio s)],
            atom_tomo_attempts := (atom_tomo_attempts s)[tomo_count s := attempt_index s],
            tomo_count := Suc (tomo_count s)\<rparr>)"
  using assms by (simp add: tomography_def set_item_def on_rtio_def)

subsection \<open>Several channels detecting in one attempt\<close>

text \<open>
  Claim C7. In an attempt whose gates report an edge on at least one channel, every channel
  that reports one gets a record appended to its own arrays, at its own count, and all of
  these records carry the value \<open>attempt_index\<close> had when the attempt began; a channel
  that reports none is left alone. In Seq5 and Seq6 the attempt is then one detection
  for the cooling cycle whichever channels fired: one tomography record with the same
  attempt index, the flag set, and the attempt loop left.
\<close>

theorem attempt_multi_channel:
  assumes g: "gates h (attempt_no s) = (t0, t1)"
    and det: "t0 \<noteq> - 1 \<or> t1 \<noteq> - 1"
    and c0: "ttl0_detected_count s < length (ttl0_detected_times s)"
            "ttl0_detected_count s < length (ttl0_detected_attempts s)"
    and c1: "ttl1_detected_count s < length (ttl1_detected_times s)"
            "ttl1_detected_count s < length (ttl1_detected_attempts s)"
    and ct: "tomo_count s < length (atom_tomo_times s)"
            "tomo_count s < length (atom_tomo_attempts s)"
  shows "\<exists>s'. attempt v h s = Inr (if stop_on_detection v then Break else Continue, s')
     \<and> (if t0 \<noteq> - 1
         then ttl0_detected_count s' = ttl0_detected_count s + 1
            \<and> ttl0_detected_times s' ! ttl0_detected_count s = t0
            \<and> ttl0_detected_attempts s' ! ttl0_detected_count s = attempt_index s
         else ttl0_detected_count s' = ttl0_detected_count s
            \<and> ttl0_detected_times s' = ttl0_detected_times s
            \<and> ttl0_detected_attempts s' = ttl0_detected_attempts s)
     \<and> (if t1 \<noteq> - 1
         then ttl1_detected_count s' = ttl1_detected_count s + 1
            \<and> ttl1_detected_times s' ! ttl1_detected_count s = t1
            \<and> ttl1_detected_attempts s' ! ttl1_detected_count s = attempt_index s
         else ttl1_detected_count s' = ttl1_detected_count s
            \<and> ttl1_detected_times s' = ttl1_detected_times s
            \<and> ttl1_detected_attempts s' = ttl1_detected_attempts s)
     \<and> (if stop_on_detection v
         then tomo_count s' = tomo_count s + 1
            \<and> atom_tomo_attempts s' ! tomo_count s = attempt_index s
            \<and> photon_detected_this_cycle s'
         else tomo_count s' = tomo_count s)"
  using assms
  by (cases "t0 = - 1"; cases "t1 = - 1"; cases "stop_on_detection v")
     (simp_all add: attempt_def on_rtio_def store_ttl0_ok store_ttl1_ok tomography_ok)

theorem attempt_multi_channel_witness:
  "gates (demo_hw (\<lambda>k. (1000, 2000))) (attempt_no (alloc Seq5 (demo_cfg 1 1 1 1))) = (1000, 2000)
   \<and> (\<exists>s'. attempt Seq5 (demo_hw (\<lambda>k. (1000, 2000))) (alloc Seq5 (demo_cfg 1 1 1 1)) = Inr (Break, s')
     \<and> ttl0_detected_count s' = 1 \<and> ttl0_detected_times s' ! 0 = 1000 \<and> ttl0_detected_attempts s' ! 0 = 0
     \<and> ttl1_detected_count s' = 1 \<and> ttl1_detected_times s' ! 0 = 2000 \<and> ttl1_detected_attempts s' ! 0 = 0
     \<and> tomo_count s' = 1 \<and> atom_tomo_attempts s' ! 0 = 0 \<and> photon_detected_this_cycle s')"
  using attempt_multi_channel [of "demo_hw (\<lambda>k. (1000, 2000))" "alloc Seq5 (demo_cfg 1 1 1 1)" 1000 2000 Seq5]
  by (simp add: demo_hw_def demo_cfg_def alloc_def np_zeros_def)

subsection \<open>The two time-tag lists of Seq2.py\<close>

lemma repetition13_tags:
  "time_tags_0 (repetition13 h s) = time_tags_0 s @ [fst (gates h (reps_done s))]"
  "time_tags_1 (repetition13 h s) = time_tags_1 s @ [snd (gates h (reps_done s))]"
  "reps_done (repetition13 h s) = Suc (reps_done s)"
  by (simp_all add: repetition13_def on_rtio13_def record_time_tag_0_def record_time_tag_1_def
        split: prod.splits)

lemma repetitions13_tags:
  "time_tags_0 ((repetition13 h ^^ n) s) = time_tags_0 s @ map (\<lambda>k. fst (gates h (reps_done s + k))) [0..<n]
   \<and> time_tags_1 ((repetition13 h ^^ n) s) = time_tags_1 s @ map (\<lambda>k. snd (gates h (reps_done s + k))) [0..<n]
   \<and> reps_done ((repetition13 h ^^ n) s) = reps_done s + n"
  by (induction n) (simp_all add: repetition13_tags)

lemma cycle13_tags:
  "time_tags_0 (cycle13 h s) = time_tags_0 s @ map (\<lambda>k. fst (gates h (reps_done s + k))) [0..<repetitions_per_cycle]"
  "time_tags_1 (cycle13 h s) = time_tags_1 s @ map (\<lambda>k. snd (gates h (reps_done s + k))) [0..<repetitions_per_cycle]"
  "reps_done (cycle13 h s) = reps_done s + repetitions_per_cycle"
  by (simp_all add: cycle13_def on_rtio13_def repetitions13_tags)

lemma map_upt_append:
  "map f [0..<a] @ map (\<lambda>k. f (a + k)) [0..<b] = map f [0..<a + b]"
proof -
  have "map (\<lambda>k. f (a + k)) [0..<b] = map f [a..<a + b]"
    by (induction b) simp_all
  moreover have "[0..<a + b] = [0..<a] @ [a..<a + b]"
    using upt_add_eq_append[of 0 a b] by simp
  ultimately show ?thesis by simp
qed

lemma cycles13_tags:
  "time_tags_0 ((cycle13 h ^^ m) s) = time_tags_0 s @ map (\<lambda>k. fst (gates h (reps_done s + k))) [0..<m * repetitions_per_cycle]
   \<and> time_tags_1 ((cycle13 h ^^ m) s) = time_tags_1 s @ map (\<lambda>k. snd (gates h (reps_done s + k))) [0..<m * repetitions_per_cycle]
   \<and> reps_done ((cycle13 h ^^ m) s) = reps_done s + m * repetitions_per_cycle"
proof (induction m)
  case 0
  then show ?case by simp
next
  case (Suc m)
  let ?n = "m * repetitions_per_cycle"
  have a: "map (\<lambda>k. fst (gates h (reps_done s + k))) [0..<?n]
        @ map (\<lambda>k. fst (gates h (reps_done s + (?n + k)))) [0..<repetitions_per_cycle]
      = map (\<lambda>k. fst (gates h (reps_done s + k))) [0..<?n + repetitions_per_cycle]"
    by (rule map_upt_append)
  have b: "map (\<lambda>k. snd (gates h (reps_done s + k))) [0..<?n]
        @ map (\<lambda>k. snd (gates h (reps_done s + (?n + k)))) [0..<repetitions_per_cycle]
      = map (\<lambda>k. snd (gates h (reps_done s + k))) [0..<?n + repetitions_per_cycle]"
    by (rule map_upt_append)
  from Suc a b show ?case
    by (simp add: cycle13_tags add.assoc add.commute[of repetitions_per_cycle])
qed

lemma kernel13_tags:
  "time_tags_0 (kernel13 h s) = time_tags_0 s @ map (\<lambda>k. fst (gates h (reps_done s + k))) [0..<num_cycles * repetitions_per_cycle]"
  "time_tags_1 (kernel13 h s) = time_tags_1 s @ map (\<lambda>k. snd (gates h (reps_done s + k))) [0..<num_cycles * repetitions_per_cycle]"
  by (simp_all add: kernel13_def on_rtio13_def cycles13_tags)

lemma csv_rows_ok:
  "i + n \<le> length xs \<Longrightarrow> i + n \<le> length ys \<Longrightarrow>
   csv_rows xs ys i n = Inr (map (\<lambda>k. (k + 1, xs ! k, ys ! k)) [i..<i + n])"
proof (induction n arbitrary: i)
  case 0
  then show ?case by simp
next
  case (Suc n)
  from Suc.prems have le: "Suc i + n \<le> length xs" "Suc i + n \<le> length ys" by simp_all
  have u: "[i..<i + Suc n] = i # [Suc i..<Suc i + n]"
    by (simp add: upt_conv_Cons del: upt_Suc)
  have "csv_rows xs ys i (Suc n)
      = Inr ((i + 1, xs ! i, ys ! i) # map (\<lambda>k. (k + 1, xs ! k, ys ! k)) [Suc i..<Suc i + n])"
    using Suc.IH[OF le] Suc.prems by simp
  then show ?case by (simp only: u list.map)
qed

text \<open>
  Claim C10. In \<open>FullExperimentSequence13\<close> every repetition appends one time tag to
  each of the two lists: the readings of its two gates, so \<open>-1\<close> where no edge fell
  into the window. After any number of repetitions both lists have grown by that
  number; after the whole kernel, started from the empty lists of \<open>build\<close>, entry
  \<open>i\<close> of either list is the reading of repetition \<open>i\<close>, both lists have length
  \<open>num_cycles * repetitions_per_cycle\<close>, which is 500, and \<open>write_to_csv\<close> does
  not raise and writes row \<open>i + 1\<close> from the two readings of repetition \<open>i\<close>.
\<close>

theorem seq13_time_tags:
  "time_tags_0 (kernel13 h build13) = map (\<lambda>i. fst (gates h i)) [0..<num_cycles * repetitions_per_cycle]
   \<and> time_tags_1 (kernel13 h build13) = map (\<lambda>i. snd (gates h i)) [0..<num_cycles * repetitions_per_cycle]
   \<and> length (time_tags_0 (kernel13 h build13)) = 500
   \<and> length (time_tags_1 (kernel13 h build13)) = 500
   \<and> num_cycles * repetitions_per_cycle = 500
   \<and> length (time_tags_0 ((repetition13 h ^^ n) s)) = length (time_tags_0 s) + n
   \<and> length (time_tags_1 ((repetition13 h ^^ n) s)) = length (time_tags_1 s) + n
   \<and> run13 h build13
       = Inr (map (\<lambda>i. (i + 1, fst (gates h i), snd (gates h i))) [0..<num_cycles * repetitions_per_cycle])"
proof -
  let ?N = "num_cycles * repetitions_per_cycle"
  have n: "?N = 500"
    by (simp add: num_cycles_def repetitions_per_cycle_def)
  have t0: "time_tags_0 (kernel13 h build13) = map (\<lambda>i. fst (gates h i)) [0..<?N]"
    using kernel13_tags(1)[of h build13] by (simp add: build13_def)
  have t1: "time_tags_1 (kernel13 h build13) = map (\<lambda>i. snd (gates h i)) [0..<?N]"
    using kernel13_tags(2)[of h build13] by (simp add: build13_def)
  have l0: "length (time_tags_0 (kernel13 h build13)) = 500"
    unfolding t0 using n by simp
  have l1: "length (time_tags_1 (kernel13 h build13)) = 500"
    unfolding t1 using n by simp
  have "csv_rows (map (\<lambda>i. fst (gates h i)) [0..<?N]) (map (\<lambda>i. snd (gates h i)) [0..<?N]) 0 ?N
      = Inr (map (\<lambda>k. (k + 1, map (\<lambda>i. fst (gates h i)) [0..<?N] ! k, map (\<lambda>i. snd (gates h i)) [0..<?N] ! k))
               [0..<0 + ?N])"
    by (rule csv_rows_ok) simp_all
  also have "\<dots> = Inr (map (\<lambda>i. (i + 1, fst (gates h i), snd (gates h i))) [0..<?N])"
    by simp
  finally have csv: "run13 h build13
      = Inr (map (\<lambda>i. (i + 1, fst (gates h i), snd (gates h i))) [0..<?N])"
    by (simp add: run13_def write_to_csv_def t0 t1)
  have r0: "length (time_tags_0 ((repetition13 h ^^ n) s)) = length (time_tags_0 s) + n"
    by (simp add: repetitions13_tags)
  have r1: "length (time_tags_1 ((repetition13 h ^^ n) s)) = length (time_tags_1 s) + n"
    by (simp add: repetitions13_tags)
  show ?thesis
    by (intro conjI) (rule t0 t1 l0 l1 n r0 r1 csv)+
qed


theorem seq13_time_tags_witness:
  "time_tags_0 (kernel13 (demo_hw (\<lambda>k. if k = 3 then (777, - 1) else (- 1, - 1))) build13) ! 3 = 777
   \<and> time_tags_1 (kernel13 (demo_hw (\<lambda>k. if k = 3 then (777, - 1) else (- 1, - 1))) build13) ! 3 = - 1
   \<and> time_tags_0 (kernel13 (demo_hw (\<lambda>k. if k = 3 then (777, - 1) else (- 1, - 1))) build13) ! 4 = - 1
   \<and> length (time_tags_0 (kernel13 (demo_hw (\<lambda>k. if k = 3 then (777, - 1) else (- 1, - 1))) build13)) = 500
   \<and> length (time_tags_1 (kernel13 (demo_hw (\<lambda>k. if k = 3 then (777, - 1) else (- 1, - 1))) build13)) = 500"
proof -
  let ?h = "demo_hw (\<lambda>k. if k = 3 then (777, - 1) else (- 1, - 1))"
  note t = seq13_time_tags [of ?h 0 build13]
  have n: "num_cycles * repetitions_per_cycle = 500" using t by blast
  have t0: "time_tags_0 (kernel13 ?h build13) = map (\<lambda>i. fst (gates ?h i)) [0..<num_cycles * repetitions_per_cycle]"
    using t by blast
  have t1: "time_tags_1 (kernel13 ?h build13) = map (\<lambda>i. snd (gates ?h i)) [0..<num_cycles * repetitions_per_cycle]"
    using t by blast
  have g: "gates ?h 3 = (777, - 1)" "gates ?h 4 = (- 1, - 1)" by (simp_all add: demo_hw_def)
  have "time_tags_0 (kernel13 ?h build13) ! 3 = 777"
    unfolding t0 n using g by (simp del: upt_Suc add: nth_map_upt)
  moreover have "time_tags_1 (kernel13 ?h build13) ! 3 = - 1"
    unfolding t1 n using g by (simp del: upt_Suc add: nth_map_upt)
  moreover have "time_tags_0 (kernel13 ?h build13) ! 4 = - 1"
    unfolding t0 n using g by (simp del: upt_Suc add: nth_map_upt)
  moreover have "length (time_tags_0 (kernel13 ?h build13)) = 500" using t by blast
  moreover have "length (time_tags_1 (kernel13 ?h build13)) = 500" using t by blast
  ultimately show ?thesis by blast
qed

subsection \<open>Blocks of statements\<close>

lemma steps_Nil [simp]: "steps [] s = s"
  by (simp add: steps_def)

lemma steps_Cons [simp]: "steps (f # fs) s = steps fs (f s)"
  by (simp add: steps_def)

lemma steps_append [simp]: "steps (fs @ gs) s = steps gs (steps fs s)"
  by (simp add: steps_def)

subsection \<open>Resynchronisation after a host wait\<close>

lemma resynced_iff:
  "resynced h t \<longleftrightarrow>
     (\<forall>i < length (trace t). is_wait (snd (trace t ! i)) \<longrightarrow>
        Suc i < length (trace t)
        \<and> snd (trace t ! Suc i) = BreakRealtime
        \<and> (\<forall>j. Suc i < j \<and> j < length (trace t) \<longrightarrow> rtio_min_now h (Suc i) \<le> fst (trace t ! j))
        \<and> rtio_min_now h (Suc i) \<le> now t)"
  by (auto simp: resynced_def list_all_iff)

lemma resynced_emit:
  assumes "resynced h t" and "\<not> is_wait x"
  shows "resynced h (emit x t)"
  using assms unfolding resynced_iff emit_def
  by (auto simp: nth_append less_Suc_eq)

lemma resynced_delay:
  assumes "resynced h t" and "0 \<le> d"
  shows "resynced h (delay d t)"
  using assms unfolding resynced_iff delay_def
  by (auto simp: nth_append)


lemma resynced_break_realtime:
  assumes "resynced h t"
  shows "resynced h (break_realtime h t)"
  using assms unfolding resynced_iff break_realtime_def emit_def
  by (auto simp: nth_append less_Suc_eq)

lemma resynced_wait_break:
  assumes "resynced h t"
  shows "resynced h (break_realtime h (host_mot_load_wait ms t))"
  using assms unfolding resynced_iff break_realtime_def host_mot_load_wait_def emit_def
  by (auto simp: nth_append less_Suc_eq)

lemma resynced_ttl_pulse:
  "resynced h t \<Longrightarrow> 0 \<le> d \<Longrightarrow> resynced h (ttl_pulse c d t)"
  by (simp add: ttl_pulse_def resynced_emit resynced_delay)

lemma resynced_sw_pulse:
  "resynced h t \<Longrightarrow> 0 \<le> d \<Longrightarrow> resynced h (sw_pulse c d t)"
  by (simp add: sw_pulse_def resynced_emit resynced_delay)

lemma resynced_dds_set:
  "resynced h t \<Longrightarrow> 0 \<le> set_mu h \<Longrightarrow> resynced h (dds_set h c f t)"
  by (simp add: dds_set_def resynced_emit resynced_delay)

lemma resynced_dds_set_amplitude:
  "resynced h t \<Longrightarrow> 0 \<le> set_amplitude_mu h \<Longrightarrow> resynced h (dds_set_amplitude h c a t)"
  by (simp add: dds_set_amplitude_def resynced_emit resynced_delay)

lemma resynced_gate_rising_parallel:
  assumes "resynced h t" and "0 \<le> d"
  shows "resynced h (gate_rising_parallel d t)"
  using assms unfolding resynced_iff gate_rising_parallel_def emit_def
  by (auto simp: nth_append less_Suc_eq)

lemmas resynced_prims =
  resynced_emit resynced_delay resynced_break_realtime resynced_ttl_pulse resynced_sw_pulse
  resynced_dds_set resynced_dds_set_amplitude resynced_gate_rising_parallel

lemma resynced_mot_load:
  assumes "resynced h t" and "0 \<le> set_mu h" and "0 \<le> set_amplitude_mu h"
  shows "resynced h (mot_load v h t)"
  using assms
  by (cases "host_wait v")
     (simp_all add: mot_load_def resynced_prims resynced_wait_break mot_load_time_def)

lemma resynced_blocks:
  assumes "0 \<le> set_mu h" and "0 \<le> set_amplitude_mu h"
  shows "blocks_preserve h (resynced h)"
  using assms
  by (simp add: blocks_preserve_def preserved_def atom_load_def configure_ch3_def
        attempt_pulses_def tomography_pulse_def cooling_def resynced_prims
        atom_load_time_def optical_pump_time_def excitation_time_def pulse_width_def
        gate_rising_time_def small_delay_def)

subsection \<open>What the kernel does to the timeline\<close>

lemma store_ttl0_rtio:
  "case store_ttl0 x s of Inl (e, s') \<Rightarrow> rtio s' = rtio s \<and> e = IndexError | Inr s' \<Rightarrow> rtio s' = rtio s"
  by (simp add: store_ttl0_def set_item_def Let_def)

lemma store_ttl1_rtio:
  "case store_ttl1 x s of Inl (e, s') \<Rightarrow> rtio s' = rtio s \<and> e = IndexError | Inr s' \<Rightarrow> rtio s' = rtio s"
  by (simp add: store_ttl1_def set_item_def Let_def)

lemma tomography_rtio:
  "case tomography s of Inl (e, s') \<Rightarrow> rtio s' = rtio s \<and> e = IndexError
     | Inr s' \<Rightarrow> rtio s' = tomography_pulse (rtio s)"
  by (simp add: tomography_def set_item_def on_rtio_def Let_def)

text \<open>The body of the attempt loop, with the gate readings named.\<close>

lemma attempt_unfold:
  assumes g: "gates h (attempt_no s) = (t0, t1)"
  shows "attempt v h s =
     (case (if t0 \<noteq> - 1 then store_ttl0 t0 ((on_rtio attempt_pulses s)\<lparr>attempt_no := Suc (attempt_no s)\<rparr>)
            else Inr ((on_rtio attempt_pulses s)\<lparr>attempt_no := Suc (attempt_no s)\<rparr>)) of
        Inl e \<Rightarrow> Inl e
      | Inr s3 \<Rightarrow>
         (case (if t1 \<noteq> - 1 then store_ttl1 t1 s3 else Inr s3) of
            Inl e \<Rightarrow> Inl e
          | Inr s4 \<Rightarrow>
             if stop_on_detection v \<and> (t0 \<noteq> - 1 \<or> t1 \<noteq> - 1) then
               (case tomography s4 of
                  Inl e \<Rightarrow> Inl e
                | Inr s5 \<Rightarrow> Inr (Break, s5\<lparr>photon_detected_this_cycle := True\<rparr>))
             else Inr (Continue, s4\<lparr>attempt_index := attempt_index s4 + 1\<rparr>)))"
proof -
  have n: "attempt_no (on_rtio attempt_pulses s) = attempt_no s"
    by (simp add: on_rtio_def)
  show ?thesis
    unfolding attempt_def Let_def n g prod.case ..
qed

lemma attempt_rtio:
  "case attempt v h s of
     Inl (e, s') \<Rightarrow> rtio s' = attempt_pulses (rtio s) \<and> e = IndexError
   | Inr (f, s') \<Rightarrow> rtio s' = attempt_pulses (rtio s)
        \<or> rtio s' = tomography_pulse (attempt_pulses (rtio s))"
proof -
  obtain t0 t1 where g: "gates h (attempt_no s) = (t0, t1)" by (cases "gates h (attempt_no s)")
  let ?s2 = "(on_rtio attempt_pulses s)\<lparr>attempt_no := Suc (attempt_no s)\<rparr>"
  note u = attempt_unfold[OF g, of v]
  have r2: "rtio ?s2 = attempt_pulses (rtio s)" by (simp add: on_rtio_def)
  show ?thesis
  proof (cases "if t0 \<noteq> - 1 then store_ttl0 t0 ?s2 else Inr ?s2")
    case a: (Inl p)
    obtain e s' where p: "p = (e, s')" by (cases p)
    have "rtio s' = attempt_pulses (rtio s) \<and> e = IndexError"
      using a p store_ttl0_rtio[where x=t0 and s="?s2"] r2 by (cases "t0 = - 1") simp_all
    then show ?thesis by (simp add: u a p)
  next
    case a: (Inr s3)
    have r3: "rtio s3 = attempt_pulses (rtio s)"
      using a store_ttl0_rtio[where x=t0 and s="?s2"] r2 by (cases "t0 = - 1") auto
    show ?thesis
    proof (cases "if t1 \<noteq> - 1 then store_ttl1 t1 s3 else Inr s3")
      case b: (Inl p)
      obtain e s' where p: "p = (e, s')" by (cases p)
      have "rtio s' = attempt_pulses (rtio s) \<and> e = IndexError"
        using b p store_ttl1_rtio[where x=t1 and s=s3] r3 by (cases "t1 = - 1") simp_all
      then show ?thesis by (simp add: u a b p)
    next
      case b: (Inr s4)
      have r4: "rtio s4 = attempt_pulses (rtio s)"
        using b store_ttl1_rtio[where x=t1 and s=s3] r3 by (cases "t1 = - 1") auto
      show ?thesis
      proof (cases "stop_on_detection v \<and> (t0 \<noteq> - 1 \<or> t1 \<noteq> - 1)")
        case False
        then show ?thesis using r4 by (auto simp: u a b)
      next
        case True
        show ?thesis
        proof (cases "tomography s4")
          case c: (Inl p)
          obtain e s' where p: "p = (e, s')" by (cases p)
          have "rtio s' = attempt_pulses (rtio s) \<and> e = IndexError"
            using c p tomography_rtio[where s=s4] r4 by simp
          then show ?thesis using True by (simp add: u a b c p)
        next
          case c: (Inr s5)
          have "rtio s5 = tomography_pulse (attempt_pulses (rtio s))"
            using c tomography_rtio[where s=s4] r4 by simp
          then show ?thesis using True by (simp add: u a b c)
        qed
      qed
    qed
  qed
qed


lemma for_range_ends_with:
  assumes "\<And>t. Q t \<Longrightarrow> step_with Q (body t)" and "Q s"
  shows "ends_with Q (for_range n body s)"
  using assms(2)
proof (induction n arbitrary: s)
  case 0
  then show ?case by (simp add: ends_with_def)
next
  case (Suc n)
  note b = assms(1)[OF Suc.prems]
  show ?case
  proof (cases "body s")
    case (Inl p)
    with b show ?thesis by (simp add: step_with_def ends_with_def)
  next
    case (Inr q)
    obtain f t where q: "q = (f, t)" by (cases q)
    from b Inr q have t: "Q t" by (simp add: step_with_def)
    show ?thesis
    proof (cases f)
      case Break
      with Inr q t show ?thesis by (simp add: ends_with_def)
    next
      case Continue
      with Inr q Suc.IH[OF t] show ?thesis by simp
    qed
  qed
qed

lemma attempt_preserves:
  assumes "blocks_preserve h P" and "P (rtio s)"
  shows "step_with (\<lambda>s. P (rtio s)) (attempt v h s)"
  using attempt_rtio[where v=v and h=h and s=s] assms
  by (auto simp: step_with_def blocks_preserve_def preserved_def split: sum.splits)

lemma cooling_cycle_preserves:
  assumes b: "blocks_preserve h P" and p: "P (rtio s)"
  shows "step_with (\<lambda>s. P (rtio s)) (cooling_cycle v h cfg s)"
proof -
  have e: "ends_with (\<lambda>s. P (rtio s)) (for_range (attempts_per_cooling cfg) (attempt v h) s)"
    by (rule for_range_ends_with) (auto intro: attempt_preserves b p)
  show ?thesis
  proof (cases "for_range (attempts_per_cooling cfg) (attempt v h) s")
    case (Inl q)
    with e show ?thesis by (simp add: cooling_cycle_def ends_with_def step_with_def)
  next
    case (Inr s1)
    with e have "P (rtio s1)" by (simp add: ends_with_def)
    moreover from this b have "P (cooling h (rtio s1))"
      by (simp add: blocks_preserve_def preserved_def)
    ultimately show ?thesis
      by (simp add: cooling_cycle_def step_with_def on_rtio_def Inr)
  qed
qed

lemma big_cycle_preserves:
  assumes b: "blocks_preserve h P" and p: "P (mot_load v h (rtio s))"
  shows "step_with (\<lambda>s. P (rtio s)) (big_cycle v h cfg s)"
proof -
  let ?s1 = "on_rtio (steps [mot_load v h, atom_load h, configure_ch3 h]) s"
  let ?s2 = "if stop_on_detection v then ?s1\<lparr>photon_detected_this_cycle := False\<rparr> else ?s1"
  have "P (rtio ?s2)"
    using b p by (simp add: on_rtio_def blocks_preserve_def preserved_def)
  then have e: "ends_with (\<lambda>s. P (rtio s)) (for_range (num_cooling_cycles cfg) (cooling_cycle v h cfg) ?s2)"
    by (intro for_range_ends_with cooling_cycle_preserves b)
  have u: "big_cycle v h cfg s =
     (case for_range (num_cooling_cycles cfg) (cooling_cycle v h cfg) ?s2 of
        Inl e \<Rightarrow> Inl e
      | Inr s3 \<Rightarrow> Inr (Continue, on_rtio (break_realtime h) s3))"
    unfolding big_cycle_def Let_def ..
  show ?thesis
  proof (cases "for_range (num_cooling_cycles cfg) (cooling_cycle v h cfg) ?s2")
    case (Inl q)
    with e show ?thesis by (simp add: u ends_with_def step_with_def)
  next
    case (Inr s3)
    with e have "P (rtio s3)" by (simp add: ends_with_def)
    with b have "P (break_realtime h (rtio s3))"
      by (simp add: blocks_preserve_def preserved_def)
    then show ?thesis
      by (simp add: u step_with_def on_rtio_def Inr)
  qed
qed

lemma big_cycle_no_break: "big_cycle v h cfg s \<noteq> Inr (Break, s')"
  by (simp add: big_cycle_def Let_def split: sum.splits)

lemma blocks_preserve_conj:
  "blocks_preserve h P \<Longrightarrow> blocks_preserve h Q \<Longrightarrow> blocks_preserve h (\<lambda>t. P t \<and> Q t)"
  by (simp add: blocks_preserve_def preserved_def)

subsection \<open>Counting the host waits\<close>

lemma waits_prims [simp]:
  "waits (emit x t) = waits t + (if is_wait x then 1 else 0)"
  "waits (delay d t) = waits t"
  "waits (break_realtime h t) = waits t"
  "waits (host_mot_load_wait ms t) = Suc (waits t)"
  "waits (ttl_pulse c d t) = waits t"
  "waits (sw_pulse u d t) = waits t"
  "waits (dds_set h u f t) = waits t"
  "waits (dds_set_amplitude h u a t) = waits t"
  "waits (gate_rising_parallel d t) = waits t"
  by (simp_all add: waits_def issued_def emit_def delay_def break_realtime_def
        host_mot_load_wait_def ttl_pulse_def sw_pulse_def dds_set_def dds_set_amplitude_def
        gate_rising_parallel_def)

lemma waits_blocks: "blocks_preserve h (\<lambda>t. waits t = k)"
  by (simp add: blocks_preserve_def preserved_def atom_load_def configure_ch3_def
        attempt_pulses_def tomography_pulse_def cooling_def)

lemma waits_mot_load: "waits (mot_load v h t) = waits t + (if host_wait v then 1 else 0)"
  by (simp add: mot_load_def)

lemma kernel_entry_rtio:
  "rtio (kernel_entry h s) =
     steps [core_reset h, emit (TtlInput ttl0), emit (TtlInput ttl1),
            emit (TtlOutput ttl4), emit (TtlOutput ttl7)] (rtio s)"
  by (simp add: kernel_entry_def on_rtio_def)

lemma resynced_kernel_entry:
  assumes "trace (rtio s) = []"
  shows "resynced h (rtio (kernel_entry h s))" and "waits (rtio (kernel_entry h s)) = 0"
proof -
  have "resynced h (core_reset h (rtio s))"
    using assms by (simp add: resynced_iff core_reset_def emit_def)
  then show "resynced h (rtio (kernel_entry h s))"
    by (simp add: kernel_entry_rtio resynced_emit)
  show "waits (rtio (kernel_entry h s)) = 0"
    using assms by (simp add: kernel_entry_rtio) (simp add: waits_def issued_def core_reset_def emit_def)
qed

text \<open>
  Claim C9. In the two variants whose MOT load phase waits on the host (Seq6 and Seq7),
  every \<open>host_mot_load_wait\<close> of a chunk is directly followed by a \<open>break_realtime\<close>,
  and whatever the kernel schedules after it is stamped at or past the bound that
  \<open>break_realtime\<close> got from the hardware, whether the kernel returns or raises. A
  kernel that returns has waited once in every big cycle. (The register writes are
  taken not to move the cursor backwards.)
\<close>

theorem host_wait_resynced:
  assumes hw: "host_wait v"
    and nn: "0 \<le> set_mu h" "0 \<le> set_amplitude_mu h"
    and empty: "trace (rtio s) = []"
  shows "case run_chunk_experiment v h cfg s of
           Inl (e, s') \<Rightarrow> resynced h (rtio s')
         | Inr s' \<Rightarrow> resynced h (rtio s') \<and> waits (rtio s') = num_big_cycles_chunk cfg"
proof -
  let ?I = "\<lambda>j (t::kstate). resynced h (rtio t) \<and> waits (rtio t) = j"
  have "case for_range (num_big_cycles_chunk cfg) (big_cycle v h cfg) (kernel_entry h s) of
          Inl p \<Rightarrow> resynced h (rtio (snd p))
        | Inr s' \<Rightarrow> ?I (num_big_cycles_chunk cfg) s'"
  proof (rule for_range_rule[where I = ?I])
    show "?I 0 (kernel_entry h s)"
      using resynced_kernel_entry[OF empty] by simp
  next
    fix j and t :: kstate
    assume i: "?I j t"
    have b: "blocks_preserve h (\<lambda>t. resynced h t \<and> waits t = Suc j)"
      by (intro blocks_preserve_conj resynced_blocks nn waits_blocks)
    have m: "resynced h (mot_load v h (rtio t)) \<and> waits (mot_load v h (rtio t)) = Suc j"
      using i hw nn by (simp add: resynced_mot_load waits_mot_load)
    have "step_with (\<lambda>s. resynced h (rtio s) \<and> waits (rtio s) = Suc j) (big_cycle v h cfg t)"
      by (rule big_cycle_preserves[where P = "\<lambda>t. resynced h t \<and> waits t = Suc j"]) (use b m in simp_all)
    with big_cycle_no_break[of v h cfg t]
    show "case big_cycle v h cfg t of
            Inl p \<Rightarrow> resynced h (rtio (snd p))
          | Inr (Continue, t') \<Rightarrow> ?I (Suc j) t'
          | Inr (Break, t') \<Rightarrow> ?I (num_big_cycles_chunk cfg) t'"
      by (auto simp: step_with_def split: sum.splits flow.splits)
  qed simp
  then show ?thesis
    by (auto simp: run_chunk_experiment_def split: sum.splits prod.splits)
qed


theorem host_wait_resynced_witness:
  "host_wait Seq6
   \<and> 0 \<le> set_mu (demo_hw (\<lambda>k. (- 1, - 1)))
   \<and> 0 \<le> set_amplitude_mu (demo_hw (\<lambda>k. (- 1, - 1)))
   \<and> trace (rtio (alloc Seq6 (demo_cfg 1 2 1 1))) = []
   \<and> (case run_chunk_experiment Seq6 (demo_hw (\<lambda>k. (- 1, - 1))) (demo_cfg 1 2 1 1) (alloc Seq6 (demo_cfg 1 2 1 1)) of
         Inl (e, s') \<Rightarrow> resynced (demo_hw (\<lambda>k. (- 1, - 1))) (rtio s')
       | Inr s' \<Rightarrow> resynced (demo_hw (\<lambda>k. (- 1, - 1))) (rtio s') \<and> waits (rtio s') = 2)"
proof -
  have h1: "host_wait Seq6" by simp
  have h2: "0 \<le> set_mu (demo_hw (\<lambda>k. (- 1, - 1)))" by (simp add: demo_hw_def)
  have h3: "0 \<le> set_amplitude_mu (demo_hw (\<lambda>k. (- 1, - 1)))" by (simp add: demo_hw_def)
  have h4: "trace (rtio (alloc Seq6 (demo_cfg 1 2 1 1))) = []" by (simp add: alloc_def)
  have n: "num_big_cycles_chunk (demo_cfg 1 2 1 1) = 2" by (simp add: demo_cfg_def)
  note t = host_wait_resynced [OF h1 h2 h3 h4, of "demo_cfg 1 2 1 1", unfolded n]
  show ?thesis
    by (intro conjI h1 h2 h3 h4 t)
qed

subsection \<open>The operations each block issues\<close>

lemma issued_prims [simp]:
  "issued (emit x t) = issued t @ [x]"
  "issued (delay d t) = issued t"
  "issued (break_realtime h t) = issued t @ [BreakRealtime]"
  "issued (core_reset h t) = issued t @ [CoreReset]"
  "issued (host_mot_load_wait ms t) = issued t @ [HostMotLoadWait ms]"
  "issued (ttl_pulse c d t) = issued t @ [TtlOn c, TtlOff c]"
  "issued (sw_pulse u d t) = issued t @ [SwOn u, SwOff u]"
  "issued (dds_set h u f t) = issued t @ [DdsSet u f]"
  "issued (dds_set_amplitude h u a t) = issued t @ [DdsSetAmplitude u a]"
  "issued (gate_rising_parallel d t) = issued t @ [GateRising ttl0 d, GateRising ttl1 d]"
  by (simp_all add: issued_def emit_def delay_def break_realtime_def core_reset_def
        host_mot_load_wait_def ttl_pulse_def sw_pulse_def dds_set_def dds_set_amplitude_def
        gate_rising_parallel_def)

lemma issued_load:
  "issued (configure_ch3 h (atom_load h (mot_load v h t))) = issued t @ load_ops v"
  by (simp add: mot_load_def atom_load_def configure_ch3_def load_ops_def)

lemma issued_attempt_pulses: "issued (attempt_pulses t) = issued t @ attempt_ops"
  by (simp add: attempt_pulses_def attempt_ops_def gate_rising_time_def)

lemma issued_tomography_pulse: "issued (tomography_pulse t) = issued t @ tomography_ops"
  by (simp add: tomography_pulse_def tomography_ops_def)

lemma issued_cooling: "issued (cooling h t) = issued t @ cooling_ops"
  by (simp add: cooling_def cooling_ops_def)

lemma issued_kernel_entry: "issued (rtio (kernel_entry h s)) = issued (rtio s) @ entry_ops"
  by (simp add: kernel_entry_rtio entry_ops_def)

subsection \<open>Attempts without a detection\<close>

lemma attempt_quiet:
  assumes "gates h (attempt_no s) = (- 1, - 1)"
  shows "attempt v h s =
     Inr (Continue, (on_rtio attempt_pulses s)\<lparr>attempt_no := Suc (attempt_no s),
                                               attempt_index := attempt_index s + 1\<rparr>)"
  by (simp add: attempt_unfold[OF assms] on_rtio_def)


lemma quiet_step_trans:
  "quiet_step s a xs t \<Longrightarrow> quiet_step t b ys u \<Longrightarrow> quiet_step s (a + b) (xs @ ys) u"
  by (simp add: quiet_step_def)

lemma quiet_step_refl: "quiet_step s 0 [] s"
  by (simp add: quiet_step_def)

lemma for_range_quiet:
  assumes body: "\<And>t. R t \<Longrightarrow> \<exists>t'. body t = Inr (Continue, t') \<and> quiet_step t k ops t' \<and> R t'"
    and "R s"
  shows "\<exists>s'. for_range n body s = Inr s' \<and> quiet_step s (n * k) (concat (replicate n ops)) s' \<and> R s'"
  using assms(2)
proof (induction n arbitrary: s)
  case 0
  then show ?case by (simp add: quiet_step_refl)
next
  case (Suc n)
  from body[OF Suc.prems] obtain t where
    t: "body s = Inr (Continue, t)" "quiet_step s k ops t" "R t" by blast
  from Suc.IH[OF t(3)] obtain s' where
    s': "for_range n body t = Inr s'" "quiet_step t (n * k) (concat (replicate n ops)) s'" "R s'"
    by blast
  from quiet_step_trans[OF t(2) s'(2)]
  have "quiet_step s (Suc n * k) (concat (replicate (Suc n) ops)) s'" by simp
  with t(1) s'(1) s'(3) show ?case by simp
qed

lemma attempt_quiet_step:
  assumes "gates h (attempt_no s) = (- 1, - 1)"
  shows "\<exists>s'. attempt v h s = Inr (Continue, s') \<and> quiet_step s 1 attempt_ops s'
           \<and> photon_detected_this_cycle s' = photon_detected_this_cycle s"
  by (simp add: attempt_quiet[OF assms] quiet_step_def records_def on_rtio_def issued_attempt_pulses)

lemma cooling_cycle_quiet:
  assumes g: "\<And>k. gates h k = (- 1, - 1)"
    and f: "\<not> (stop_on_detection v \<and> photon_detected_this_cycle s)"
  shows "\<exists>s'. cooling_cycle v h cfg s = Inr (Continue, s')
           \<and> quiet_step s (attempts_per_cooling cfg) (quiet_cooling_cycle_ops cfg) s'
           \<and> \<not> (stop_on_detection v \<and> photon_detected_this_cycle s')"
proof -
  let ?R = "\<lambda>t::kstate. photon_detected_this_cycle t = photon_detected_this_cycle s"
  have "\<exists>s1. for_range (attempts_per_cooling cfg) (attempt v h) s = Inr s1
          \<and> quiet_step s (attempts_per_cooling cfg * 1)
               (concat (replicate (attempts_per_cooling cfg) attempt_ops)) s1 \<and> ?R s1"
  proof (rule for_range_quiet[where R = ?R])
    fix t :: kstate assume "?R t"
    with attempt_quiet_step[OF g, where s=t and v=v]
    show "\<exists>t'. attempt v h t = Inr (Continue, t') \<and> quiet_step t 1 attempt_ops t' \<and> ?R t'"
      by auto
  qed simp
  then obtain s1 where s1: "for_range (attempts_per_cooling cfg) (attempt v h) s = Inr s1"
    "quiet_step s (attempts_per_cooling cfg) (concat (replicate (attempts_per_cooling cfg) attempt_ops)) s1"
    "?R s1" by auto
  have c: "quiet_step s1 0 cooling_ops (on_rtio (cooling h) s1)"
    by (simp add: quiet_step_def records_def on_rtio_def issued_cooling)
  from quiet_step_trans[OF s1(2) c]
  have "quiet_step s (attempts_per_cooling cfg) (quiet_cooling_cycle_ops cfg) (on_rtio (cooling h) s1)"
    by (simp add: quiet_cooling_cycle_ops_def)
  moreover have "cooling_cycle v h cfg s = Inr (Continue, on_rtio (cooling h) s1)"
    using s1(1) s1(3) f by (simp add: cooling_cycle_def)
  moreover have "\<not> (stop_on_detection v \<and> photon_detected_this_cycle (on_rtio (cooling h) s1))"
    using s1(3) f by (simp add: on_rtio_def)
  ultimately show ?thesis by blast
qed

lemma big_cycle_quiet:
  assumes g: "\<And>k. gates h k = (- 1, - 1)"
  shows "\<exists>s'. big_cycle v h cfg s = Inr (Continue, s')
           \<and> quiet_step s (num_cooling_cycles cfg * attempts_per_cooling cfg) (quiet_big_cycle_ops v cfg) s'"
proof -
  let ?s1 = "on_rtio (steps [mot_load v h, atom_load h, configure_ch3 h]) s"
  let ?s2 = "if stop_on_detection v then ?s1\<lparr>photon_detected_this_cycle := False\<rparr> else ?s1"
  let ?R = "\<lambda>t::kstate. \<not> (stop_on_detection v \<and> photon_detected_this_cycle t)"
  have l: "quiet_step s 0 (load_ops v) ?s2"
    by (simp add: quiet_step_def records_def on_rtio_def issued_load)
  have "\<exists>s3. for_range (num_cooling_cycles cfg) (cooling_cycle v h cfg) ?s2 = Inr s3
          \<and> quiet_step ?s2 (num_cooling_cycles cfg * attempts_per_cooling cfg)
               (concat (replicate (num_cooling_cycles cfg) (quiet_cooling_cycle_ops cfg))) s3 \<and> ?R s3"
    by (rule for_range_quiet[where R = ?R]) (use cooling_cycle_quiet[OF g] in auto)
  then obtain s3 where s3: "for_range (num_cooling_cycles cfg) (cooling_cycle v h cfg) ?s2 = Inr s3"
    "quiet_step ?s2 (num_cooling_cycles cfg * attempts_per_cooling cfg)
       (concat (replicate (num_cooling_cycles cfg) (quiet_cooling_cycle_ops cfg))) s3" by blast
  have b: "quiet_step s3 0 [BreakRealtime] (on_rtio (break_realtime h) s3)"
    by (simp add: quiet_step_def records_def on_rtio_def)
  from quiet_step_trans[OF quiet_step_trans[OF l s3(2)] b]
  have "quiet_step s (num_cooling_cycles cfg * attempts_per_cooling cfg) (quiet_big_cycle_ops v cfg)
          (on_rtio (break_realtime h) s3)"
    by (simp add: quiet_big_cycle_ops_def)
  moreover have "big_cycle v h cfg s = Inr (Continue, on_rtio (break_realtime h) s3)"
    unfolding big_cycle_def Let_def s3(1) by simp
  ultimately show ?thesis by blast
qed

text \<open>
  Claim C5. If no gate ever reports an edge, every cooling cycle runs exactly
  \<open>attempts_per_cooling\<close> attempts and then the cooling block once, a big cycle is its
  load phase followed by \<open>num_cooling_cycles\<close> such cooling cycles and the closing
  \<open>break_realtime\<close>, and the chunk is \<open>num_big_cycles_chunk\<close> such big cycles, each
  beginning with the load phase. The kernel returns without raising, has counted every
  attempt, and leaves all three counts at zero and the arrays as it got them.
\<close>

theorem no_detection_chunk:
  assumes g: "\<And>k. gates h k = (- 1, - 1)"
  shows "\<exists>s'. run_chunk_experiment v h cfg s = Inr s'
     \<and> attempt_no s' = num_big_cycles_chunk cfg * (num_cooling_cycles cfg * attempts_per_cooling cfg)
     \<and> attempt_index s' = int (num_big_cycles_chunk cfg * (num_cooling_cycles cfg * attempts_per_cooling cfg))
     \<and> chunk_result s' = (0, 0, 0)
     \<and> ttl0_detected_times s' = ttl0_detected_times s
     \<and> ttl0_detected_attempts s' = ttl0_detected_attempts s
     \<and> ttl1_detected_times s' = ttl1_detected_times s
     \<and> ttl1_detected_attempts s' = ttl1_detected_attempts s
     \<and> atom_tomo_times s' = atom_tomo_times s
     \<and> atom_tomo_attempts s' = atom_tomo_attempts s
     \<and> issued (rtio s') =
         issued (rtio s) @ entry_ops
         @ concat (replicate (num_big_cycles_chunk cfg) (quiet_big_cycle_ops v cfg))"
proof -
  let ?n = "num_cooling_cycles cfg * attempts_per_cooling cfg"
  have "\<exists>s'. for_range (num_big_cycles_chunk cfg) (big_cycle v h cfg) (kernel_entry h s) = Inr s'
          \<and> quiet_step (kernel_entry h s) (num_big_cycles_chunk cfg * ?n)
               (concat (replicate (num_big_cycles_chunk cfg) (quiet_big_cycle_ops v cfg))) s' \<and> True"
    by (rule for_range_quiet[where R = "\<lambda>t::kstate. True"]) (use big_cycle_quiet[OF g] in auto)
  then obtain s' where s': "run_chunk_experiment v h cfg s = Inr s'"
    "quiet_step (kernel_entry h s) (num_big_cycles_chunk cfg * ?n)
       (concat (replicate (num_big_cycles_chunk cfg) (quiet_big_cycle_ops v cfg))) s'"
    by (auto simp: run_chunk_experiment_def)
  have k: "records (kernel_entry h s)
      = ((0, ttl0_detected_times s, ttl0_detected_attempts s),
         (0, ttl1_detected_times s, ttl1_detected_attempts s),
         (0, atom_tomo_times s, atom_tomo_attempts s))"
    "attempt_no (kernel_entry h s) = 0" "attempt_index (kernel_entry h s) = 0"
    by (simp_all add: kernel_entry_def records_def on_rtio_def)
  from s'(2) k have
    "attempt_no s' = num_big_cycles_chunk cfg * ?n"
    "attempt_index s' = int (num_big_cycles_chunk cfg * ?n)"
    "chunk_result s' = (0, 0, 0)"
    "ttl0_detected_times s' = ttl0_detected_times s"
    "ttl0_detected_attempts s' = ttl0_detected_attempts s"
    "ttl1_detected_times s' = ttl1_detected_times s"
    "ttl1_detected_attempts s' = ttl1_detected_attempts s"
    "atom_tomo_times s' = atom_tomo_times s"
    "atom_tomo_attempts s' = atom_tomo_attempts s"
    "issued (rtio s') = issued (rtio s) @ entry_ops
       @ concat (replicate (num_big_cycles_chunk cfg) (quiet_big_cycle_ops v cfg))"
    by (simp_all add: quiet_step_def records_def chunk_result_def issued_kernel_entry)
  with s'(1) show ?thesis by blast
qed


theorem no_detection_chunk_witness:
  "(\<forall>k. gates (demo_hw (\<lambda>k. (- 1, - 1))) k = (- 1, - 1))
   \<and> (\<exists>s'. run_chunk_experiment Seq5 (demo_hw (\<lambda>k. (- 1, - 1))) (demo_cfg 1 1 2 3) (alloc Seq5 (demo_cfg 1 1 2 3)) = Inr s'
        \<and> attempt_no s' = 6
        \<and> chunk_result s' = (0, 0, 0)
        \<and> issued (rtio s') =
            entry_ops @ load_ops Seq5
            @ attempt_ops @ attempt_ops @ attempt_ops @ cooling_ops
            @ attempt_ops @ attempt_ops @ attempt_ops @ cooling_ops
            @ [BreakRealtime])"
proof -
  have g: "\<And>k. gates (demo_hw (\<lambda>k. (- 1, - 1))) k = (- 1, - 1)"
    by (simp add: demo_hw_def)
  from no_detection_chunk [OF g, of Seq5 "demo_cfg 1 1 2 3" "alloc Seq5 (demo_cfg 1 1 2 3)"]
  obtain s' where s':
    "run_chunk_experiment Seq5 (demo_hw (\<lambda>k. (- 1, - 1))) (demo_cfg 1 1 2 3) (alloc Seq5 (demo_cfg 1 1 2 3)) = Inr s'"
    "attempt_no s' = num_big_cycles_chunk (demo_cfg 1 1 2 3)
        * (num_cooling_cycles (demo_cfg 1 1 2 3) * attempts_per_cooling (demo_cfg 1 1 2 3))"
    "chunk_result s' = (0, 0, 0)"
    "issued (rtio s') = issued (rtio (alloc Seq5 (demo_cfg 1 1 2 3))) @ entry_ops
       @ concat (replicate (num_big_cycles_chunk (demo_cfg 1 1 2 3)) (quiet_big_cycle_ops Seq5 (demo_cfg 1 1 2 3)))"
    by blast
  have "attempt_no s' = 6" using s'(2) by (simp add: demo_cfg_def)
  moreover have "issued (rtio s') =
            entry_ops @ load_ops Seq5
            @ attempt_ops @ attempt_ops @ attempt_ops @ cooling_ops
            @ attempt_ops @ attempt_ops @ attempt_ops @ cooling_ops
            @ [BreakRealtime]"
    unfolding s'(4)
    by (simp add: demo_cfg_def alloc_def issued_def quiet_big_cycle_ops_def quiet_cooling_cycle_ops_def
          numeral_2_eq_2 numeral_3_eq_3)
  ultimately show ?thesis using g s'(1) s'(3) by blast
qed

subsection \<open>A detecting attempt in Seq5 and Seq6\<close>

lemma attempt_detect:
  assumes stop: "stop_on_detection v"
    and g: "gates h (attempt_no s) = (t0, t1)"
    and det: "t0 \<noteq> - 1 \<or> t1 \<noteq> - 1"
    and c0: "ttl0_detected_count s < length (ttl0_detected_times s)"
            "ttl0_detected_count s < length (ttl0_detected_attempts s)"
    and c1: "ttl1_detected_count s < length (ttl1_detected_times s)"
            "ttl1_detected_count s < length (ttl1_detected_attempts s)"
    and ct: "tomo_count s < length (atom_tomo_times s)"
            "tomo_count s < length (atom_tomo_attempts s)"
  shows "\<exists>s'. attempt v h s = Inr (Break, s')
     \<and> rtio s' = tomography_pulse (attempt_pulses (rtio s))
     \<and> attempt_no s' = Suc (attempt_no s)
     \<and> attempt_index s' = attempt_index s
     \<and> photon_detected_this_cycle s'
     \<and> ttl0_detected_count s' = ttl0_detected_count s + (if t0 \<noteq> - 1 then 1 else 0)
     \<and> ttl0_detected_times s' =
          (if t0 \<noteq> - 1 then (ttl0_detected_times s)[ttl0_detected_count s := t0]
           else ttl0_detected_times s)
     \<and> ttl0_detected_attempts s' =
          (if t0 \<noteq> - 1 then (ttl0_detected_attempts s)[ttl0_detected_count s := attempt_index s]
           else ttl0_detected_attempts s)
     \<and> ttl1_detected_count s' = ttl1_detected_count s + (if t1 \<noteq> - 1 then 1 else 0)
     \<and> ttl1_detected_times s' =
          (if t1 \<noteq> - 1 then (ttl1_detected_times s)[ttl1_detected_count s := t1]
           else ttl1_detected_times s)
     \<and> ttl1_detected_attempts s' =
          (if t1 \<noteq> - 1 then (ttl1_detected_attempts s)[ttl1_detected_count s := attempt_index s]
           else ttl1_detected_attempts s)
     \<and> tomo_count s' = Suc (tomo_count s)
     \<and> atom_tomo_times s' = (atom_tomo_times s)[tomo_count s := now (attempt_pulses (rtio s))]
     \<and> atom_tomo_attempts s' = (atom_tomo_attempts s)[tomo_count s := attempt_index s]"
  using assms
  by (cases "t0 = - 1"; cases "t1 = - 1")
     (simp_all add: attempt_unfold[OF g] on_rtio_def store_ttl0_ok store_ttl1_ok tomography_ok)

subsection \<open>Times on the timeline\<close>

lemma attempt_pulses_tail:
  "\<exists>pre. trace (attempt_pulses t) =
      pre @ [(now (attempt_pulses t) - gate_rising_time, GateRising ttl0 gate_rising_time),
             (now (attempt_pulses t) - gate_rising_time, GateRising ttl1 gate_rising_time)]"
  by (simp add: attempt_pulses_def sw_pulse_def ttl_pulse_def gate_rising_parallel_def emit_def delay_def)

lemma tomography_pulse_timeline:
  "trace (tomography_pulse t) = trace t @ [(now t + 3000, TtlOn ttl4), (now t + 10003000, TtlOff ttl4)]"
  "now (tomography_pulse t) = now t + 10003000"
  by (simp_all add: tomography_pulse_def emit_def delay_def)

lemma break_realtime_trace:
  "trace (break_realtime h t) = trace t @ [(now t, BreakRealtime)]"
  by (simp add: break_realtime_def emit_def)


subsection \<open>A detection on the second attempt of a chunk\<close>

text \<open>
  Claim C3. In Seq5 and Seq6, let the first attempt of a chunk see no edge and the second
  see one on at least one channel. Then the first big cycle consists of the load phase,
  two attempts, the tomography pulse and the closing \<open>break_realtime\<close>, with no cooling
  block and no further attempt; every channel that saw the edge has one record, with
  attempt index 1; there is one tomography record, with attempt index 1 and with the
  cursor value \<open>T\<close> at which the gates of the second attempt closed, which is the cursor
  position in front of the tomography block (the pulse on ttl4 starts at \<open>T + 3000\<close>);
  and the chunk goes on with its remaining big cycles from that state.
\<close>

theorem early_termination_second_attempt:
  assumes stop: "stop_on_detection v"
    and g0: "gates h 0 = (- 1, - 1)"
    and g1: "gates h 1 = (t0, t1)"
    and det: "t0 \<noteq> - 1 \<or> t1 \<noteq> - 1"
    and B: "num_big_cycles_chunk cfg = Suc b"
    and Cc: "1 \<le> num_cooling_cycles cfg"
    and A: "2 \<le> attempts_per_cooling cfg"
    and cap: "0 < length (ttl0_detected_times s)" "0 < length (ttl0_detected_attempts s)"
             "0 < length (ttl1_detected_times s)" "0 < length (ttl1_detected_attempts s)"
             "0 < length (atom_tomo_times s)" "0 < length (atom_tomo_attempts s)"
  shows "\<exists>s1 T pre.
       big_cycle v h cfg (kernel_entry h s) = Inr (Continue, s1)
     \<and> run_chunk_experiment v h cfg s = for_range b (big_cycle v h cfg) s1
     \<and> attempt_no s1 = 2
     \<and> ttl0_detected_count s1 = (if t0 \<noteq> - 1 then 1 else 0)
     \<and> (if t0 \<noteq> - 1 then ttl0_detected_times s1 ! 0 = t0 \<and> ttl0_detected_attempts s1 ! 0 = 1
         else ttl0_detected_times s1 = ttl0_detected_times s
            \<and> ttl0_detected_attempts s1 = ttl0_detected_attempts s)
     \<and> ttl1_detected_count s1 = (if t1 \<noteq> - 1 then 1 else 0)
     \<and> (if t1 \<noteq> - 1 then ttl1_detected_times s1 ! 0 = t1 \<and> ttl1_detected_attempts s1 ! 0 = 1
         else ttl1_detected_times s1 = ttl1_detected_times s
            \<and> ttl1_detected_attempts s1 = ttl1_detected_attempts s)
     \<and> tomo_count s1 = 1
     \<and> atom_tomo_times s1 ! 0 = T
     \<and> atom_tomo_attempts s1 ! 0 = 1
     \<and> issued (rtio s1) =
          issued (rtio s) @ entry_ops @ load_ops v @ attempt_ops @ attempt_ops
          @ tomography_ops @ [BreakRealtime]
     \<and> trace (rtio s1) =
          pre @ [(T - gate_rising_time, GateRising ttl0 gate_rising_time),
                 (T - gate_rising_time, GateRising ttl1 gate_rising_time),
                 (T + 3000, TtlOn ttl4),
                 (T + 10003000, TtlOff ttl4),
                 (T + 10003000, BreakRealtime)]"
proof -
  let ?k = "kernel_entry h s"
  let ?s2 = "(on_rtio (steps [mot_load v h, atom_load h, configure_ch3 h]) ?k)
               \<lparr>photon_detected_this_cycle := False\<rparr>"
  let ?s3 = "(on_rtio attempt_pulses ?s2)\<lparr>attempt_no := Suc (attempt_no ?s2),
                                             attempt_index := attempt_index ?s2 + 1\<rparr>"
  have k: "attempt_no ?s2 = 0" "attempt_index ?s2 = 0"
    "ttl0_detected_count ?s2 = 0" "ttl1_detected_count ?s2 = 0" "tomo_count ?s2 = 0"
    "ttl0_detected_times ?s2 = ttl0_detected_times s"
    "ttl0_detected_attempts ?s2 = ttl0_detected_attempts s"
    "ttl1_detected_times ?s2 = ttl1_detected_times s"
    "ttl1_detected_attempts ?s2 = ttl1_detected_attempts s"
    "atom_tomo_times ?s2 = atom_tomo_times s"
    "atom_tomo_attempts ?s2 = atom_tomo_attempts s"
    by (simp_all add: kernel_entry_def on_rtio_def)
  have r2: "issued (rtio ?s2) = issued (rtio s) @ entry_ops @ load_ops v"
    by (simp add: on_rtio_def issued_load issued_kernel_entry)
  define t2 where "t2 = rtio ?s2"
  have a1: "attempt v h ?s2 = Inr (Continue, ?s3)"
    by (rule attempt_quiet) (simp add: k g0)
  have k3: "attempt_no ?s3 = 1" "attempt_index ?s3 = 1"
    "ttl0_detected_count ?s3 = 0" "ttl1_detected_count ?s3 = 0" "tomo_count ?s3 = 0"
    "ttl0_detected_times ?s3 = ttl0_detected_times s"
    "ttl0_detected_attempts ?s3 = ttl0_detected_attempts s"
    "ttl1_detected_times ?s3 = ttl1_detected_times s"
    "ttl1_detected_attempts ?s3 = ttl1_detected_attempts s"
    "atom_tomo_times ?s3 = atom_tomo_times s"
    "atom_tomo_attempts ?s3 = atom_tomo_attempts s"
    "rtio ?s3 = attempt_pulses t2"
    using k by (simp_all add: on_rtio_def t2_def)
  have "\<exists>s4. attempt v h ?s3 = Inr (Break, s4)
     \<and> rtio s4 = tomography_pulse (attempt_pulses (rtio ?s3))
     \<and> attempt_no s4 = Suc (attempt_no ?s3)
     \<and> attempt_index s4 = attempt_index ?s3
     \<and> photon_detected_this_cycle s4
     \<and> ttl0_detected_count s4 = ttl0_detected_count ?s3 + (if t0 \<noteq> - 1 then 1 else 0)
     \<and> ttl0_detected_times s4 =
          (if t0 \<noteq> - 1 then (ttl0_detected_times ?s3)[ttl0_detected_count ?s3 := t0]
           else ttl0_detected_times ?s3)
     \<and> ttl0_detected_attempts s4 =
          (if t0 \<noteq> - 1 then (ttl0_detected_attempts ?s3)[ttl0_detected_count ?s3 := attempt_index ?s3]
           else ttl0_detected_attempts ?s3)
     \<and> ttl1_detected_count s4 = ttl1_detected_count ?s3 + (if t1 \<noteq> - 1 then 1 else 0)
     \<and> ttl1_detected_times s4 =
          (if t1 \<noteq> - 1 then (ttl1_detected_times ?s3)[ttl1_detected_count ?s3 := t1]
           else ttl1_detected_times ?s3)
     \<and> ttl1_detected_attempts s4 =
          (if t1 \<noteq> - 1 then (ttl1_detected_attempts ?s3)[ttl1_detected_count ?s3 := attempt_index ?s3]
           else ttl1_detected_attempts ?s3)
     \<and> tomo_count s4 = Suc (tomo_count ?s3)
     \<and> atom_tomo_times s4 = (atom_tomo_times ?s3)[tomo_count ?s3 := now (attempt_pulses (rtio ?s3))]
     \<and> atom_tomo_attempts s4 = (atom_tomo_attempts ?s3)[tomo_count ?s3 := attempt_index ?s3]"
    by (rule attempt_detect[OF stop _ det]) (use k3 g1 cap in simp_all)
  then obtain s4 where a2: "attempt v h ?s3 = Inr (Break, s4)"
    and r4: "rtio s4 = tomography_pulse (attempt_pulses (attempt_pulses t2))"
    and k4: "attempt_no s4 = 2" "photon_detected_this_cycle s4"
      "ttl0_detected_count s4 = (if t0 \<noteq> - 1 then 1 else 0)"
      "ttl0_detected_times s4 = (if t0 \<noteq> - 1 then (ttl0_detected_times s)[0 := t0] else ttl0_detected_times s)"
      "ttl0_detected_attempts s4 = (if t0 \<noteq> - 1 then (ttl0_detected_attempts s)[0 := 1] else ttl0_detected_attempts s)"
      "ttl1_detected_count s4 = (if t1 \<noteq> - 1 then 1 else 0)"
      "ttl1_detected_times s4 = (if t1 \<noteq> - 1 then (ttl1_detected_times s)[0 := t1] else ttl1_detected_times s)"
      "ttl1_detected_attempts s4 = (if t1 \<noteq> - 1 then (ttl1_detected_attempts s)[0 := 1] else ttl1_detected_attempts s)"
      "tomo_count s4 = 1"
      "atom_tomo_times s4 = (atom_tomo_times s)[0 := now (attempt_pulses (attempt_pulses t2))]"
      "atom_tomo_attempts s4 = (atom_tomo_attempts s)[0 := 1]"
    unfolding k3 by auto
  let ?T = "now (attempt_pulses (attempt_pulses t2))"
  let ?s1 = "on_rtio (break_realtime h) s4"
  obtain a where Aa: "attempts_per_cooling cfg = Suc (Suc a)"
    using A by (cases "attempts_per_cooling cfg"; simp) (metis Suc_le_D Suc_le_mono)
  obtain c where Cc': "num_cooling_cycles cfg = Suc c"
    using Cc by (cases "num_cooling_cycles cfg") simp_all
  have loop: "for_range (attempts_per_cooling cfg) (attempt v h) ?s2 = Inr s4"
    by (simp only: Aa for_range.simps a1 a2 sum.case prod.case flow.case)
  have cc: "cooling_cycle v h cfg ?s2 = Inr (Break, s4)"
    by (simp add: cooling_cycle_def loop stop k4)
  have cl: "for_range (num_cooling_cycles cfg) (cooling_cycle v h cfg) ?s2 = Inr s4"
    by (simp add: Cc' cc)
  have bc: "big_cycle v h cfg ?k = Inr (Continue, ?s1)"
    unfolding big_cycle_def Let_def using stop cl by simp
  have run: "run_chunk_experiment v h cfg s = for_range b (big_cycle v h cfg) ?s1"
    by (simp add: run_chunk_experiment_def B bc)
  have r2': "issued t2 = issued (rtio s) @ entry_ops @ load_ops v"
    using r2 by (simp only: t2_def)
  have iss: "issued (rtio ?s1) =
          issued (rtio s) @ entry_ops @ load_ops v @ attempt_ops @ attempt_ops
          @ tomography_ops @ [BreakRealtime]"
    by (simp add: on_rtio_def r4 issued_tomography_pulse issued_attempt_pulses r2')
  obtain pre where pre: "trace (attempt_pulses (attempt_pulses t2)) =
      pre @ [(?T - gate_rising_time, GateRising ttl0 gate_rising_time),
             (?T - gate_rising_time, GateRising ttl1 gate_rising_time)]"
    using attempt_pulses_tail[of "attempt_pulses t2"] by blast
  have tr: "trace (rtio ?s1) =
          pre @ [(?T - gate_rising_time, GateRising ttl0 gate_rising_time),
                 (?T - gate_rising_time, GateRising ttl1 gate_rising_time),
                 (?T + 3000, TtlOn ttl4),
                 (?T + 10003000, TtlOff ttl4),
                 (?T + 10003000, BreakRealtime)]"
    by (simp add: on_rtio_def r4 break_realtime_trace tomography_pulse_timeline pre)
  have f: "attempt_no ?s1 = 2"
    "ttl0_detected_count ?s1 = (if t0 \<noteq> - 1 then 1 else 0)"
    "(if t0 \<noteq> - 1 then ttl0_detected_times ?s1 ! 0 = t0 \<and> ttl0_detected_attempts ?s1 ! 0 = 1
         else ttl0_detected_times ?s1 = ttl0_detected_times s
            \<and> ttl0_detected_attempts ?s1 = ttl0_detected_attempts s)"
    "ttl1_detected_count ?s1 = (if t1 \<noteq> - 1 then 1 else 0)"
    "(if t1 \<noteq> - 1 then ttl1_detected_times ?s1 ! 0 = t1 \<and> ttl1_detected_attempts ?s1 ! 0 = 1
         else ttl1_detected_times ?s1 = ttl1_detected_times s
            \<and> ttl1_detected_attempts ?s1 = ttl1_detected_attempts s)"
    "tomo_count ?s1 = 1"
    "atom_tomo_times ?s1 ! 0 = ?T"
    "atom_tomo_attempts ?s1 ! 0 = 1"
    using cap by (simp_all add: on_rtio_def k4)
  show ?thesis
    apply (rule exI[of _ ?s1])
    apply (rule exI[of _ ?T])
    apply (rule exI[of _ pre])
    apply (intro conjI)
    apply (rule bc run f iss tr)+
    done
qed


theorem early_termination_second_attempt_witness:
  "stop_on_detection Seq5
   \<and> gates (demo_hw (\<lambda>k. if k = 1 then (4242, - 1) else (- 1, - 1))) 0 = (- 1, - 1)
   \<and> gates (demo_hw (\<lambda>k. if k = 1 then (4242, - 1) else (- 1, - 1))) 1 = (4242, - 1)
   \<and> (\<exists>s1 T pre.
         big_cycle Seq5 (demo_hw (\<lambda>k. if k = 1 then (4242, - 1) else (- 1, - 1))) (demo_cfg 1 1 1 2)
           (kernel_entry (demo_hw (\<lambda>k. if k = 1 then (4242, - 1) else (- 1, - 1))) (alloc Seq5 (demo_cfg 1 1 1 2)))
           = Inr (Continue, s1)
       \<and> attempt_no s1 = 2
       \<and> ttl0_detected_count s1 = 1
       \<and> ttl0_detected_times s1 ! 0 = 4242
       \<and> ttl0_detected_attempts s1 ! 0 = 1
       \<and> ttl1_detected_count s1 = 0
       \<and> tomo_count s1 = 1
       \<and> atom_tomo_times s1 ! 0 = T
       \<and> atom_tomo_attempts s1 ! 0 = 1
       \<and> trace (rtio s1) =
            pre @ [(T - gate_rising_time, GateRising ttl0 gate_rising_time),
                   (T - gate_rising_time, GateRising ttl1 gate_rising_time),
                   (T + 3000, TtlOn ttl4),
                   (T + 10003000, TtlOff ttl4),
                   (T + 10003000, BreakRealtime)])"
proof -
  let ?h = "demo_hw (\<lambda>k. if k = 1 then (4242, - 1) else (- 1, - 1))"
  let ?c = "demo_cfg 1 1 1 2"
  have h: "stop_on_detection Seq5" "gates ?h 0 = (- 1, - 1)" "gates ?h 1 = (4242, - 1)"
    by (simp_all add: demo_hw_def)
  have c: "num_big_cycles_chunk ?c = Suc 0" "1 \<le> num_cooling_cycles ?c" "2 \<le> attempts_per_cooling ?c"
    by (simp_all add: demo_cfg_def)
  have l: "0 < length (ttl0_detected_times (alloc Seq5 ?c))" "0 < length (ttl0_detected_attempts (alloc Seq5 ?c))"
    "0 < length (ttl1_detected_times (alloc Seq5 ?c))" "0 < length (ttl1_detected_attempts (alloc Seq5 ?c))"
    "0 < length (atom_tomo_times (alloc Seq5 ?c))" "0 < length (atom_tomo_attempts (alloc Seq5 ?c))"
    by (simp_all add: alloc_def demo_cfg_def np_zeros_def)
  from early_termination_second_attempt [OF h(1) h(2) h(3) _ c l]
  obtain s1 T pre where
    "big_cycle Seq5 ?h ?c (kernel_entry ?h (alloc Seq5 ?c)) = Inr (Continue, s1)"
    "attempt_no s1 = 2"
    "ttl0_detected_count s1 = 1"
    "ttl0_detected_times s1 ! 0 = 4242"
    "ttl0_detected_attempts s1 ! 0 = 1"
    "ttl1_detected_count s1 = 0"
    "tomo_count s1 = 1"
    "atom_tomo_times s1 ! 0 = T"
    "atom_tomo_attempts s1 ! 0 = 1"
    "trace (rtio s1) =
            pre @ [(T - gate_rising_time, GateRising ttl0 gate_rising_time),
                   (T - gate_rising_time, GateRising ttl1 gate_rising_time),
                   (T + 3000, TtlOn ttl4),
                   (T + 10003000, TtlOff ttl4),
                   (T + 10003000, BreakRealtime)]"
    by auto
  with h show ?thesis by blast
qed

subsection \<open>A detection on the first attempt of a big cycle\<close>

lemma big_cycle_detect_first:
  assumes stop: "stop_on_detection v"
    and g: "gates h (attempt_no s) = (t0, t1)"
    and det: "t0 \<noteq> - 1 \<or> t1 \<noteq> - 1"
    and Cc: "1 \<le> num_cooling_cycles cfg"
    and A: "1 \<le> attempts_per_cooling cfg"
    and c0: "ttl0_detected_count s < length (ttl0_detected_times s)"
            "ttl0_detected_count s < length (ttl0_detected_attempts s)"
    and c1: "ttl1_detected_count s < length (ttl1_detected_times s)"
            "ttl1_detected_count s < length (ttl1_detected_attempts s)"
    and ct: "tomo_count s < length (atom_tomo_times s)"
            "tomo_count s < length (atom_tomo_attempts s)"
  shows "\<exists>s'. big_cycle v h cfg s = Inr (Continue, s')
     \<and> attempt_no s' = Suc (attempt_no s)
     \<and> attempt_index s' = attempt_index s
     \<and> ttl0_detected_count s' = ttl0_detected_count s + (if t0 \<noteq> - 1 then 1 else 0)
     \<and> ttl0_detected_times s' =
          (if t0 \<noteq> - 1 then (ttl0_detected_times s)[ttl0_detected_count s := t0]
           else ttl0_detected_times s)
     \<and> ttl0_detected_attempts s' =
          (if t0 \<noteq> - 1 then (ttl0_detected_attempts s)[ttl0_detected_count s := attempt_index s]
           else ttl0_detected_attempts s)
     \<and> ttl1_detected_count s' = ttl1_detected_count s + (if t1 \<noteq> - 1 then 1 else 0)
     \<and> ttl1_detected_times s' =
          (if t1 \<noteq> - 1 then (ttl1_detected_times s)[ttl1_detected_count s := t1]
           else ttl1_detected_times s)
     \<and> ttl1_detected_attempts s' =
          (if t1 \<noteq> - 1 then (ttl1_detected_attempts s)[ttl1_detected_count s := attempt_index s]
           else ttl1_detected_attempts s)
     \<and> tomo_count s' = Suc (tomo_count s)
     \<and> length (atom_tomo_times s') = length (atom_tomo_times s)
     \<and> atom_tomo_attempts s' = (atom_tomo_attempts s)[tomo_count s := attempt_index s]"
proof -
  let ?s2 = "(on_rtio (steps [mot_load v h, atom_load h, configure_ch3 h]) s)
               \<lparr>photon_detected_this_cycle := False\<rparr>"
  define s2 where "s2 = ?s2"
  have k: "attempt_no s2 = attempt_no s" "attempt_index s2 = attempt_index s"
    "ttl0_detected_count s2 = ttl0_detected_count s" "ttl1_detected_count s2 = ttl1_detected_count s"
    "tomo_count s2 = tomo_count s"
    "ttl0_detected_times s2 = ttl0_detected_times s"
    "ttl0_detected_attempts s2 = ttl0_detected_attempts s"
    "ttl1_detected_times s2 = ttl1_detected_times s"
    "ttl1_detected_attempts s2 = ttl1_detected_attempts s"
    "atom_tomo_times s2 = atom_tomo_times s"
    "atom_tomo_attempts s2 = atom_tomo_attempts s"
    by (simp_all add: s2_def on_rtio_def)
  from attempt_detect[OF stop, of h s2 t0 t1] g det c0 c1 ct
  obtain s4 where a: "attempt v h s2 = Inr (Break, s4)"
    and k4: "attempt_no s4 = Suc (attempt_no s)"
      "attempt_index s4 = attempt_index s"
      "photon_detected_this_cycle s4"
      "ttl0_detected_count s4 = ttl0_detected_count s + (if t0 \<noteq> - 1 then 1 else 0)"
      "ttl0_detected_times s4 =
          (if t0 \<noteq> - 1 then (ttl0_detected_times s)[ttl0_detected_count s := t0]
           else ttl0_detected_times s)"
      "ttl0_detected_attempts s4 =
          (if t0 \<noteq> - 1 then (ttl0_detected_attempts s)[ttl0_detected_count s := attempt_index s]
           else ttl0_detected_attempts s)"
      "ttl1_detected_count s4 = ttl1_detected_count s + (if t1 \<noteq> - 1 then 1 else 0)"
      "ttl1_detected_times s4 =
          (if t1 \<noteq> - 1 then (ttl1_detected_times s)[ttl1_detected_count s := t1]
           else ttl1_detected_times s)"
      "ttl1_detected_attempts s4 =
          (if t1 \<noteq> - 1 then (ttl1_detected_attempts s)[ttl1_detected_count s := attempt_index s]
           else ttl1_detected_attempts s)"
      "tomo_count s4 = Suc (tomo_count s)"
      "length (atom_tomo_times s4) = length (atom_tomo_times s)"
      "atom_tomo_attempts s4 = (atom_tomo_attempts s)[tomo_count s := attempt_index s]"
    unfolding k by auto
  obtain a' where Aa: "attempts_per_cooling cfg = Suc a'"
    using A by (cases "attempts_per_cooling cfg") simp_all
  obtain c where Cc': "num_cooling_cycles cfg = Suc c"
    using Cc by (cases "num_cooling_cycles cfg") simp_all
  have loop: "for_range (attempts_per_cooling cfg) (attempt v h) s2 = Inr s4"
    by (simp add: Aa a)
  have cc: "cooling_cycle v h cfg s2 = Inr (Break, s4)"
    by (simp add: cooling_cycle_def loop stop k4)
  have cl: "for_range (num_cooling_cycles cfg) (cooling_cycle v h cfg) s2 = Inr s4"
    by (simp add: Cc' cc)
  have bc: "big_cycle v h cfg s = Inr (Continue, on_rtio (break_realtime h) s4)"
    unfolding big_cycle_def Let_def using stop cl by (simp add: s2_def)
  show ?thesis
    by (rule exI[of _ "on_rtio (break_realtime h) s4"]) (simp add: bc on_rtio_def k4)
qed


lemma two_detections_same_index:
  assumes stop: "stop_on_detection v"
    and B: "num_big_cycles_chunk cfg = 2"
    and c: "1 \<le> num_cooling_cycles cfg" "1 \<le> attempts_per_cooling cfg"
    and g: "gates h 0 = (a, - 1)" "gates h 1 = (b, - 1)"
    and ab: "a \<noteq> - 1" "b \<noteq> - 1"
  shows "\<exists>s'. run_chunk_experiment v h cfg (alloc v cfg) = Inr s'
     \<and> attempt_no s' = 2
     \<and> chunk_result s' = (2, 0, 2)
     \<and> take 2 (ttl0_detected_times s') = [a, b]
     \<and> take 2 (ttl0_detected_attempts s') = [0, 0]
     \<and> take 2 (atom_tomo_attempts s') = [0, 0]"
proof -
  define k0 where "k0 = kernel_entry h (alloc v cfg)"
  have m: "chunk_max v cfg = 12" using stop B by (cases v) simp_all
  have k0: "attempt_no k0 = 0" "attempt_index k0 = 0"
    "ttl0_detected_count k0 = 0" "ttl1_detected_count k0 = 0" "tomo_count k0 = 0"
    "ttl0_detected_times k0 = np_zeros 12" "ttl0_detected_attempts k0 = np_zeros 12"
    "ttl1_detected_times k0 = np_zeros 12" "ttl1_detected_attempts k0 = np_zeros 12"
    "atom_tomo_times k0 = np_zeros 12" "atom_tomo_attempts k0 = np_zeros 12"
    using stop by (simp_all add: k0_def kernel_entry_def on_rtio_def alloc_def m)
  have z: "length (np_zeros 12) = 12" by (simp add: np_zeros_def)
  have g0: "gates h (attempt_no k0) = (a, - 1)" by (simp add: k0 g)
  from big_cycle_detect_first[OF stop g0 _ c] k0 z ab
  obtain s1 where b1: "big_cycle v h cfg k0 = Inr (Continue, s1)"
    and k1: "attempt_no s1 = 1" "attempt_index s1 = 0"
      "ttl0_detected_count s1 = 1" "ttl1_detected_count s1 = 0" "tomo_count s1 = 1"
      "ttl0_detected_times s1 = (np_zeros 12)[0 := a]"
      "ttl0_detected_attempts s1 = (np_zeros 12)[0 := 0]"
      "ttl1_detected_times s1 = np_zeros 12" "ttl1_detected_attempts s1 = np_zeros 12"
      "length (atom_tomo_times s1) = 12"
      "atom_tomo_attempts s1 = (np_zeros 12)[0 := 0]"
    by auto
  have g1: "gates h (attempt_no s1) = (b, - 1)" using g by (simp add: k1)
  from big_cycle_detect_first[OF stop g1 _ c] k1 z ab
  obtain s2 where b2: "big_cycle v h cfg s1 = Inr (Continue, s2)"
    and k2: "attempt_no s2 = 2"
      "ttl0_detected_count s2 = 2" "ttl1_detected_count s2 = 0" "tomo_count s2 = 2"
      "ttl0_detected_times s2 = (np_zeros 12)[0 := a, 1 := b]"
      "ttl0_detected_attempts s2 = (np_zeros 12)[0 := 0, 1 := 0]"
      "atom_tomo_attempts s2 = (np_zeros 12)[0 := 0, 1 := 0]"
    by auto
  have "run_chunk_experiment v h cfg (alloc v cfg) = Inr s2"
    by (simp add: run_chunk_experiment_def B numeral_2_eq_2 k0_def[symmetric] b1 b2)
  moreover have "take 2 ((np_zeros 12)[0 := a, 1 := b]) = [a, b]"
    "take 2 ((np_zeros 12)[0 := 0, 1 := 0]) = [0, 0]"
    by (simp_all add: np_zeros_def eval_nat_numeral)
  ultimately show ?thesis
    by (simp add: k2 chunk_result_def)
qed

text \<open>
  Claim C1 fails in Seq5 and Seq6. A chunk of two big cycles of one attempt each, both
  attempts seeing an edge on ttl0 (at 1000 and at 1001): the kernel executes two attempts,
  and both records of ttl0, like both tomography records, carry attempt index 0. The
  \<open>break\<close> of the detecting attempt leaves the loop body in front of
  \<open>attempt_index += 1\<close>, so the next attempt of the chunk runs with the same index.
\<close>

theorem attempt_index_reused_after_detection:
  "(\<exists>s'. run_chunk_experiment Seq5 (demo_hw (\<lambda>k. (1000 + int k, - 1))) (demo_cfg 1 2 1 1)
                 (alloc Seq5 (demo_cfg 1 2 1 1)) = Inr s'
     \<and> attempt_no s' = 2
     \<and> chunk_result s' = (2, 0, 2)
     \<and> take 2 (ttl0_detected_times s') = [1000, 1001]
     \<and> take 2 (ttl0_detected_attempts s') = [0, 0]
     \<and> take 2 (atom_tomo_attempts s') = [0, 0])
   \<and> (\<exists>s'. run_chunk_experiment Seq6 (demo_hw (\<lambda>k. (1000 + int k, - 1))) (demo_cfg 1 2 1 1)
                 (alloc Seq6 (demo_cfg 1 2 1 1)) = Inr s'
     \<and> attempt_no s' = 2
     \<and> chunk_result s' = (2, 0, 2)
     \<and> take 2 (ttl0_detected_times s') = [1000, 1001]
     \<and> take 2 (ttl0_detected_attempts s') = [0, 0]
     \<and> take 2 (atom_tomo_attempts s') = [0, 0])"
proof -
  let ?h = "demo_hw (\<lambda>k. (1000 + int k, - 1))"
  let ?c = "demo_cfg 1 2 1 1"
  have c: "num_big_cycles_chunk ?c = 2" "1 \<le> num_cooling_cycles ?c" "1 \<le> attempts_per_cooling ?c"
    by (simp_all add: demo_cfg_def)
  have g: "gates ?h 0 = (1000, - 1)" "gates ?h 1 = (1001, - 1)"
    by (simp_all add: demo_hw_def)
  have n: "(1000::int) \<noteq> - 1" "(1001::int) \<noteq> - 1" by simp_all
  show ?thesis
    by (intro conjI two_detections_same_index c g n) simp_all
qed

subsection \<open>Logs and their capacity in Seq7\<close>

lemma hits_Suc:
  "hits0 h (Suc n) = hits0 h n @ (if fst (gates h n) \<noteq> - 1 then [n] else [])"
  "hits1 h (Suc n) = hits1 h n @ (if snd (gates h n) \<noteq> - 1 then [n] else [])"
  by (simp_all add: hits0_def hits1_def)

lemma log_Suc:
  "log0 h (Suc n) = log0 h n @ (if fst (gates h n) \<noteq> - 1 then [(fst (gates h n), int n)] else [])"
  "log1 h (Suc n) = log1 h n @ (if snd (gates h n) \<noteq> - 1 then [(snd (gates h n), int n)] else [])"
  by (simp_all add: log0_def log1_def hits_Suc)

lemma zip_take_update:
  assumes "c < length xs" and "c < length ys"
  shows "zip (take (Suc c) (xs[c := x])) (take (Suc c) (ys[c := y]))
       = zip (take c xs) (take c ys) @ [(x, y)]"
  using assms by (simp add: take_Suc_conv_app_nth)

lemma store_ttl0_full:
  assumes "\<not> ttl0_detected_count s < length (ttl0_detected_times s)"
  shows "store_ttl0 t s = Inl (IndexError, s)"
  using assms by (simp add: store_ttl0_def set_item_def)

lemma store_ttl1_full:
  assumes "\<not> ttl1_detected_count s < length (ttl1_detected_times s)"
  shows "store_ttl1 t s = Inl (IndexError, s)"
  using assms by (simp add: store_ttl1_def set_item_def)

lemma attempt_seq7:
  assumes f: "filled7 h C n s"
  shows "case attempt Seq7 h s of
           Inl (e, s') \<Rightarrow> e = IndexError \<and> overflow7 h C n s'
         | Inr (f, s') \<Rightarrow> f = Continue \<and> filled7 h C (Suc n) s'"
proof -
  obtain t0 t1 where g: "gates h (attempt_no s) = (t0, t1)" by (cases "gates h (attempt_no s)")
  from f have n: "attempt_no s = n" by (simp add: filled7_def)
  from g n have gn: "fst (gates h n) = t0" "snd (gates h n) = t1" by simp_all
  let ?s2 = "(on_rtio attempt_pulses s)\<lparr>attempt_no := Suc (attempt_no s)\<rparr>"
  note u = attempt_unfold[OF g, of Seq7]
  show ?thesis
  proof (cases "t0 \<noteq> - 1 \<and> \<not> ttl0_detected_count s < C")
    case True
    then have full: "\<not> ttl0_detected_count ?s2 < length (ttl0_detected_times ?s2)"
      using f by (simp add: filled7_def on_rtio_def)
    have e: "attempt Seq7 h s = Inl (IndexError, ?s2)"
      using True by (simp add: u store_ttl0_full[OF full])
    have "overflow7 h C n ?s2"
      using f True gn
      by (auto simp: overflow7_def filled7_def on_rtio_def logged0_def logged1_def)
    with e show ?thesis by simp
  next
    case ok0: False
    let ?s3 = "if t0 \<noteq> - 1
               then ?s2\<lparr>ttl0_detected_times := (ttl0_detected_times s)[ttl0_detected_count s := t0],
                        ttl0_detected_attempts := (ttl0_detected_attempts s)[ttl0_detected_count s := attempt_index s],
                        ttl0_detected_count := Suc (ttl0_detected_count s)\<rparr>
               else ?s2"
    have st0: "(if t0 \<noteq> - 1 then store_ttl0 t0 ?s2 else Inr ?s2) = Inr ?s3"
    proof (cases "t0 = - 1")
      case True
      then show ?thesis by simp
    next
      case False
      with ok0 f have c: "ttl0_detected_count ?s2 < length (ttl0_detected_times ?s2)"
        "ttl0_detected_count ?s2 < length (ttl0_detected_attempts ?s2)"
        by (simp_all add: filled7_def on_rtio_def)
      show ?thesis by (subst store_ttl0_ok[OF c]) (simp add: False on_rtio_def)
    qed
    have l0: "logged0 ?s3 = log0 h (Suc n)" "ttl0_detected_count ?s3 = length (hits0 h (Suc n))"
      "length (hits0 h (Suc n)) \<le> C"
      using ok0 f gn
      by (auto simp: filled7_def on_rtio_def logged0_def log_Suc hits_Suc zip_take_update)
    have k3: "attempt_no ?s3 = Suc n" "attempt_index ?s3 = int n"
      "length (ttl0_detected_times ?s3) = C" "length (ttl0_detected_attempts ?s3) = C"
      "ttl1_detected_times ?s3 = ttl1_detected_times s"
      "ttl1_detected_attempts ?s3 = ttl1_detected_attempts s"
      "ttl1_detected_count ?s3 = ttl1_detected_count s"
      using f by (simp_all add: filled7_def on_rtio_def)
    define s3 where "s3 = ?s3"
    note st0' = st0[folded s3_def] and l0' = l0[folded s3_def] and k3' = k3[folded s3_def]
    have lg1: "logged1 s3 = logged1 s" by (simp add: logged1_def k3')
    show ?thesis
    proof (cases "t1 \<noteq> - 1 \<and> \<not> ttl1_detected_count s < C")
      case True
      then have full: "\<not> ttl1_detected_count s3 < length (ttl1_detected_times s3)"
        using f by (simp add: filled7_def k3')
      have e: "attempt Seq7 h s = Inl (IndexError, s3)"
        using True by (simp add: u st0' store_ttl1_full[OF full])
      have "overflow7 h C n s3"
        using f True gn l0'
        by (auto simp: overflow7_def filled7_def k3' lg1 logged1_def)
      with e show ?thesis by simp
    next
      case ok1: False
      let ?s4 = "if t1 \<noteq> - 1
               then s3\<lparr>ttl1_detected_times := (ttl1_detected_times s3)[ttl1_detected_count s3 := t1],
                        ttl1_detected_attempts := (ttl1_detected_attempts s3)[ttl1_detected_count s3 := attempt_index s3],
                        ttl1_detected_count := Suc (ttl1_detected_count s3)\<rparr>
               else s3"
      have st1: "(if t1 \<noteq> - 1 then store_ttl1 t1 s3 else Inr s3) = Inr ?s4"
      proof (cases "t1 = - 1")
        case True
        then show ?thesis by simp
      next
        case False
        with ok1 f have c: "ttl1_detected_count s3 < length (ttl1_detected_times s3)"
          "ttl1_detected_count s3 < length (ttl1_detected_attempts s3)"
          by (simp_all add: filled7_def k3')
        show ?thesis by (subst store_ttl1_ok[OF c]) (simp add: False)
      qed
      have r: "attempt Seq7 h s = Inr (Continue, ?s4\<lparr>attempt_index := attempt_index ?s4 + 1\<rparr>)"
        by (simp add: u st0' st1)
      have l1: "logged1 ?s4 = log1 h (Suc n)" "ttl1_detected_count ?s4 = length (hits1 h (Suc n))"
        "length (hits1 h (Suc n)) \<le> C"
        using ok1 f gn
        by (auto simp: filled7_def k3' logged1_def log_Suc hits_Suc zip_take_update)
      have l0'': "logged0 ?s4 = log0 h (Suc n)" "ttl0_detected_count ?s4 = length (hits0 h (Suc n))"
        using l0' by (simp_all add: logged0_def)
      have "filled7 h C (Suc n) (?s4\<lparr>attempt_index := attempt_index ?s4 + 1\<rparr>)"
        using l0'' l1 l0'(3) k3' f
        by (simp add: filled7_def logged0_def logged1_def)
      with r show ?thesis by simp
    qed
  qed
qed


text \<open>
  A loop whose body runs \<open>m\<close> attempts, keeping \<open>F\<close> or raising with \<open>Ov\<close> at one of
  its attempts, runs \<open>j * m\<close> attempts in \<open>j\<close> rounds in the same way.
\<close>

lemma for_range_blocks:
  assumes body: "\<And>n t. F n t \<Longrightarrow>
      (case body t of
         Inl (e, t') \<Rightarrow> e = IndexError \<and> (\<exists>k. n \<le> k \<and> k < n + m \<and> Ov k t')
       | Inr (f, t') \<Rightarrow> f = Continue \<and> F (n + m) t')"
    and "F n s"
  shows "case for_range j body s of
           Inl (e, s') \<Rightarrow> e = IndexError \<and> (\<exists>k. n \<le> k \<and> k < n + j * m \<and> Ov k s')
         | Inr s' \<Rightarrow> F (n + j * m) s'"
  using assms(2)
proof (induction j arbitrary: n s)
  case 0
  then show ?case by simp
next
  case (Suc j)
  note b = body[OF Suc.prems]
  show ?case
  proof (cases "body s")
    case (Inl p)
    obtain e t where p: "p = (e, t)" by (cases p)
    from b Inl p obtain k where "e = IndexError" "n \<le> k" "k < n + m" "Ov k t" by auto
    then have "e = IndexError \<and> (\<exists>k. n \<le> k \<and> k < n + Suc j * m \<and> Ov k t)"
      by (auto intro!: exI[of _ k])
    with Inl p show ?thesis by simp
  next
    case (Inr q)
    obtain f t where q: "q = (f, t)" by (cases q)
    from b Inr q have f: "f = Continue" and t: "F (n + m) t" by simp_all
    have "case for_range j body t of
         Inl (e, s') \<Rightarrow> e = IndexError \<and> (\<exists>k. n \<le> k \<and> k < n + Suc j * m \<and> Ov k s')
       | Inr s' \<Rightarrow> F (n + Suc j * m) s'"
    proof (cases "for_range j body t")
      case (Inl p)
      obtain e u where p: "p = (e, u)" by (cases p)
      from Suc.IH[OF t] Inl p obtain k where
        "e = IndexError" "n + m \<le> k" "k < n + m + j * m" "Ov k u" by auto
      then have "e = IndexError \<and> (\<exists>k. n \<le> k \<and> k < n + Suc j * m \<and> Ov k u)"
        by (auto intro!: exI[of _ k])
      with Inl p show ?thesis by simp
    next
      case (Inr u)
      with Suc.IH[OF t] show ?thesis by (simp add: add.assoc)
    qed
    with Inr q f show ?thesis by simp
  qed
qed

lemma filled7_frame [simp]:
  "filled7 h C n (on_rtio f s) = filled7 h C n s"
  "filled7 h C n (s\<lparr>photon_detected_this_cycle := b\<rparr>) = filled7 h C n s"
  "overflow7 h C n (on_rtio f s) = overflow7 h C n s"
  by (simp_all add: filled7_def overflow7_def on_rtio_def logged0_def logged1_def)

lemma cooling_cycle_seq7:
  assumes f: "filled7 h C n s"
  shows "case cooling_cycle Seq7 h cfg s of
           Inl (e, s') \<Rightarrow> e = IndexError
              \<and> (\<exists>k. n \<le> k \<and> k < n + attempts_per_cooling cfg \<and> overflow7 h C k s')
         | Inr (f, s') \<Rightarrow> f = Continue \<and> filled7 h C (n + attempts_per_cooling cfg) s'"
proof -
  have "case for_range (attempts_per_cooling cfg) (attempt Seq7 h) s of
           Inl (e, s') \<Rightarrow> e = IndexError
              \<and> (\<exists>k. n \<le> k \<and> k < n + attempts_per_cooling cfg * 1 \<and> overflow7 h C k s')
         | Inr s' \<Rightarrow> filled7 h C (n + attempts_per_cooling cfg * 1) s'"
  proof (rule for_range_blocks[where F = "filled7 h C" and Ov = "overflow7 h C", OF _ f])
    fix n t assume "filled7 h C n t"
    from attempt_seq7[OF this]
    show "case attempt Seq7 h t of
            Inl (e, t') \<Rightarrow> e = IndexError \<and> (\<exists>k\<ge>n. k < n + 1 \<and> overflow7 h C k t')
          | Inr (f, t') \<Rightarrow> f = Continue \<and> filled7 h C (n + 1) t'"
      by (auto split: sum.splits)
  qed
  then show ?thesis
    by (auto simp: cooling_cycle_def split: sum.splits)
qed

lemma big_cycle_seq7:
  assumes f: "filled7 h C n s"
  shows "case big_cycle Seq7 h cfg s of
           Inl (e, s') \<Rightarrow> e = IndexError
              \<and> (\<exists>k. n \<le> k \<and> k < n + num_cooling_cycles cfg * attempts_per_cooling cfg
                    \<and> overflow7 h C k s')
         | Inr (f, s') \<Rightarrow> f = Continue
              \<and> filled7 h C (n + num_cooling_cycles cfg * attempts_per_cooling cfg) s'"
proof -
  let ?s2 = "on_rtio (steps [mot_load Seq7 h, atom_load h, configure_ch3 h]) s"
  have "filled7 h C n ?s2" using f by simp
  from for_range_blocks[where F = "filled7 h C" and Ov = "overflow7 h C" and body = "cooling_cycle Seq7 h cfg",
      OF cooling_cycle_seq7 this, of "num_cooling_cycles cfg"]
  show ?thesis
    by (auto simp: big_cycle_def Let_def split: sum.splits)
qed

lemma filled7_kernel_entry:
  assumes "length (ttl0_detected_times s) = C" "length (ttl0_detected_attempts s) = C"
    "length (ttl1_detected_times s) = C" "length (ttl1_detected_attempts s) = C"
  shows "filled7 h C 0 (kernel_entry h s)"
  using assms
  by (simp add: filled7_def kernel_entry_def on_rtio_def hits0_def hits1_def log0_def log1_def
        logged0_def logged1_def)

lemma chunk_seq7:
  assumes "length (ttl0_detected_times s) = C" "length (ttl0_detected_attempts s) = C"
    "length (ttl1_detected_times s) = C" "length (ttl1_detected_attempts s) = C"
  shows "case run_chunk_experiment Seq7 h cfg s of
           Inl (e, s') \<Rightarrow> e = IndexError
              \<and> (\<exists>k. k < num_big_cycles_chunk cfg * (num_cooling_cycles cfg * attempts_per_cooling cfg)
                    \<and> overflow7 h C k s')
         | Inr s' \<Rightarrow>
              filled7 h C (num_big_cycles_chunk cfg * (num_cooling_cycles cfg * attempts_per_cooling cfg)) s'"
  using for_range_blocks[where F = "filled7 h C" and Ov = "overflow7 h C" and body = "big_cycle Seq7 h cfg",
      OF big_cycle_seq7 filled7_kernel_entry[OF assms, of h], where j = "num_big_cycles_chunk cfg"]
  by (auto simp: run_chunk_experiment_def split: sum.splits)


lemma hits_mono:
  assumes "m \<le> n"
  shows "length (hits0 h m) \<le> length (hits0 h n)" and "length (hits1 h m) \<le> length (hits1 h n)"
proof -
  have "[0..<n] = [0..<m] @ [m..<n]"
    using assms by (metis le_add_diff_inverse upt_add_eq_append zero_le)
  then show "length (hits0 h m) \<le> length (hits0 h n)" "length (hits1 h m) \<le> length (hits1 h n)"
    by (simp_all add: hits0_def hits1_def)
qed

lemma overflow7_exceeds:
  assumes "overflow7 h C k s" and "k < n"
  shows "C < length (hits0 h n) \<or> C < length (hits1 h n)"
proof -
  from assms(2) have "Suc k \<le> n" by simp
  from hits_mono[OF this, of h] assms(1) show ?thesis
    by (auto simp: overflow7_def hits_Suc)
qed

text \<open>
  Claim C2, for the kernel of Seq7 on arrays of capacity \<open>C\<close>. Let \<open>N\<close> be the number
  of attempts of the chunk. If no channel has more than \<open>C\<close> detections in them, the
  kernel returns, and each log holds exactly its channel's detections. Otherwise it
  raises \<open>IndexError\<close>, and it does so in the attempt \<open>k\<close> in which a channel whose log
  already holds \<open>C\<close> records sees another edge, at the store of that record: the count of
  that log is still \<open>C\<close> and its \<open>C\<close> records are the channel's first \<open>C\<close> detections.
  So the error comes with the write number \<open>C + 1\<close>, not earlier, and no later write
  happens.
\<close>

theorem capacity_exceeded_at_next_write:
  assumes "length (ttl0_detected_times s) = C" "length (ttl0_detected_attempts s) = C"
    "length (ttl1_detected_times s) = C" "length (ttl1_detected_attempts s) = C"
  shows "case run_chunk_experiment Seq7 h cfg s of
           Inl (e, s') \<Rightarrow> e = IndexError
              \<and> (C < length (hits0 h (num_big_cycles_chunk cfg * (num_cooling_cycles cfg * attempts_per_cooling cfg)))
                 \<or> C < length (hits1 h (num_big_cycles_chunk cfg * (num_cooling_cycles cfg * attempts_per_cooling cfg))))
              \<and> (\<exists>k. k < num_big_cycles_chunk cfg * (num_cooling_cycles cfg * attempts_per_cooling cfg)
                    \<and> overflow7 h C k s')
         | Inr s' \<Rightarrow>
              length (hits0 h (num_big_cycles_chunk cfg * (num_cooling_cycles cfg * attempts_per_cooling cfg))) \<le> C
              \<and> length (hits1 h (num_big_cycles_chunk cfg * (num_cooling_cycles cfg * attempts_per_cooling cfg))) \<le> C
              \<and> filled7 h C (num_big_cycles_chunk cfg * (num_cooling_cycles cfg * attempts_per_cooling cfg)) s'"
  using chunk_seq7[OF assms, where h=h and cfg=cfg]
  by (auto split: sum.splits dest: overflow7_exceeds simp: filled7_def)

lemma hits0_all:
  assumes "\<And>k. fst (gates h k) \<noteq> - 1"
  shows "hits0 h n = [0..<n]"
  using assms by (simp add: hits0_def)

lemma alloc_lengths:
  "length (ttl0_detected_times (alloc v cfg)) = chunk_max v cfg"
  "length (ttl0_detected_attempts (alloc v cfg)) = chunk_max v cfg"
  "length (ttl1_detected_times (alloc v cfg)) = chunk_max v cfg"
  "length (ttl1_detected_attempts (alloc v cfg)) = chunk_max v cfg"
  by (simp_all add: alloc_def np_zeros_def)

lemma seq7_all_detect:
  assumes d0: "\<And>k. fst (gates h k) \<noteq> - 1"
    and d1: "\<And>k. snd (gates h k) = - 1"
    and A: "10 < attempts_per_cooling cfg"
    and B: "0 < num_big_cycles_chunk cfg"
    and Cc: "0 < num_cooling_cycles cfg"
  shows "\<exists>s'. run_chunk_experiment Seq7 h cfg (alloc Seq7 cfg) = Inl (IndexError, s')
     \<and> attempt_no s' = chunk_max Seq7 cfg + 1
     \<and> ttl0_detected_count s' = chunk_max Seq7 cfg
     \<and> logged0 s' = log0 h (chunk_max Seq7 cfg)
     \<and> chunk_max Seq7 cfg + 1 \<le> num_big_cycles_chunk cfg * (num_cooling_cycles cfg * attempts_per_cooling cfg)"
proof -
  let ?N = "num_big_cycles_chunk cfg * (num_cooling_cycles cfg * attempts_per_cooling cfg)"
  let ?C = "chunk_max Seq7 cfg"
  have "0 < num_big_cycles_chunk cfg * num_cooling_cycles cfg" using B Cc by simp
  then have "num_big_cycles_chunk cfg * num_cooling_cycles cfg * 10
      < num_big_cycles_chunk cfg * num_cooling_cycles cfg * attempts_per_cooling cfg"
    using A by simp
  then have lt: "?C < ?N" by (simp add: mult.assoc)
  note c = chunk_seq7[OF alloc_lengths[where v=Seq7 and cfg=cfg], where h=h and cfg=cfg]
  show ?thesis
  proof (cases "run_chunk_experiment Seq7 h cfg (alloc Seq7 cfg)")
    case (Inr s')
    with c have "length (hits0 h ?N) \<le> ?C" by (simp add: filled7_def)
    with lt show ?thesis by (simp add: hits0_all[OF d0])
  next
    case (Inl p)
    obtain e s' where p: "p = (e, s')" by (cases p)
    from c Inl p obtain k where e: "e = IndexError" and o: "overflow7 h ?C k s'" by auto
    from o d1 have "length (hits0 h k) = ?C" "attempt_no s' = Suc k" "ttl0_detected_count s' = ?C"
      "logged0 s' = log0 h k"
      by (auto simp: overflow7_def)
    then have "attempt_no s' = ?C + 1" "ttl0_detected_count s' = ?C" "logged0 s' = log0 h ?C"
      by (simp_all add: hits0_all[OF d0])
    moreover have "?C + 1 \<le> ?N" using lt by linarith
    ultimately show ?thesis using Inl p e by blast
  qed
qed


theorem capacity_exceeded_at_next_write_witness:
  "length (ttl0_detected_times (alloc Seq7 (demo_cfg 1 1 1 12))) = 10
   \<and> length (ttl1_detected_times (alloc Seq7 (demo_cfg 1 1 1 12))) = 10
   \<and> (\<exists>s'. run_chunk_experiment Seq7 (demo_hw (\<lambda>k. (5000 + int k, - 1))) (demo_cfg 1 1 1 12)
              (alloc Seq7 (demo_cfg 1 1 1 12)) = Inl (IndexError, s')
        \<and> attempt_no s' = 11
        \<and> ttl0_detected_count s' = 10
        \<and> logged0 s' = log0 (demo_hw (\<lambda>k. (5000 + int k, - 1))) 10)"
proof -
  let ?h = "demo_hw (\<lambda>k. (5000 + int k, - 1))"
  let ?c = "demo_cfg 1 1 1 12"
  have l: "length (ttl0_detected_times (alloc Seq7 ?c)) = 10"
    "length (ttl0_detected_attempts (alloc Seq7 ?c)) = 10"
    "length (ttl1_detected_times (alloc Seq7 ?c)) = 10"
    "length (ttl1_detected_attempts (alloc Seq7 ?c)) = 10"
    by (simp_all add: alloc_def np_zeros_def demo_cfg_def)
  have n: "num_big_cycles_chunk ?c * (num_cooling_cycles ?c * attempts_per_cooling ?c) = 12"
    by (simp add: demo_cfg_def)
  have d0: "\<And>k. fst (gates ?h k) \<noteq> - 1" and d1: "\<And>k. snd (gates ?h k) = - 1"
    by (simp_all add: demo_hw_def)
  note t = capacity_exceeded_at_next_write [OF l, where h = ?h and cfg = ?c, unfolded n]
  have "\<exists>s'. run_chunk_experiment Seq7 ?h ?c (alloc Seq7 ?c) = Inl (IndexError, s')
        \<and> attempt_no s' = 11 \<and> ttl0_detected_count s' = 10 \<and> logged0 s' = log0 ?h 10"
  proof (cases "run_chunk_experiment Seq7 ?h ?c (alloc Seq7 ?c)")
    case (Inr s')
    with t have "length (hits0 ?h 12) \<le> 10" by simp
    then show ?thesis by (simp add: hits0_all[OF d0])
  next
    case (Inl p)
    obtain e s' where p: "p = (e, s')" by (cases p)
    from t Inl p obtain k where e: "e = IndexError" and o: "overflow7 ?h 10 k s'" by auto
    from o d1 have "length (hits0 ?h k) = 10" "attempt_no s' = Suc k" "ttl0_detected_count s' = 10"
      "logged0 s' = log0 ?h k"
      by (auto simp: overflow7_def)
    then have "attempt_no s' = 11" "ttl0_detected_count s' = 10" "logged0 s' = log0 ?h 10"
      by (simp_all add: hits0_all[OF d0])
    with Inl p e show ?thesis by simp
  qed
  with l show ?thesis by blast
qed

subsection \<open>Seq7 when every attempt detects\<close>

text \<open>
  Claim C4 fails in Seq7 as \<open>run\<close> sizes the arrays. With at least one big cycle and
  one cooling cycle and more than 10 attempts per cooling cycle, let ttl0 see an edge in
  every attempt (and ttl1 none). The arrays hold
  \<open>num_big_cycles_chunk * num_cooling_cycles * 10\<close> records; the attempt after that
  many raises \<open>IndexError\<close> at its store, its detection is not logged, and the kernel
  does not return: of the \<open>num_big_cycles_chunk * num_cooling_cycles *
  attempts_per_cooling\<close> attempts of the chunk, \<open>chunk_max + 1\<close> have been executed.
\<close>

theorem exhaust_all_attempts_stops_at_capacity:
  assumes "\<And>k. fst (gates h k) \<noteq> - 1"
    and "\<And>k. snd (gates h k) = - 1"
    and "10 < attempts_per_cooling cfg"
    and "0 < num_big_cycles_chunk cfg"
    and "0 < num_cooling_cycles cfg"
  shows "\<exists>s'. run_chunk_experiment Seq7 h cfg (alloc Seq7 cfg) = Inl (IndexError, s')
     \<and> attempt_no s' = chunk_max Seq7 cfg + 1
     \<and> ttl0_detected_count s' = chunk_max Seq7 cfg
     \<and> logged0 s' = log0 h (chunk_max Seq7 cfg)
     \<and> chunk_max Seq7 cfg + 1 \<le> num_big_cycles_chunk cfg * (num_cooling_cycles cfg * attempts_per_cooling cfg)"
  using assms by (rule seq7_all_detect)

theorem exhaust_all_attempts_stops_at_capacity_witness:
  "(\<forall>k. fst (gates (demo_hw (\<lambda>k. (5000 + int k, - 1))) k) \<noteq> - 1)
   \<and> (\<exists>s'. run_chunk_experiment Seq7 (demo_hw (\<lambda>k. (5000 + int k, - 1))) (demo_cfg 1 80 100 50)
              (alloc Seq7 (demo_cfg 1 80 100 50)) = Inl (IndexError, s')
        \<and> attempt_no s' = 80001
        \<and> ttl0_detected_count s' = 80000
        \<and> (80001::nat) < 80 * (100 * 50))"
proof -
  let ?h = "demo_hw (\<lambda>k. (5000 + int k, - 1))"
  let ?c = "demo_cfg 1 80 100 50"
  have d0: "\<And>k. fst (gates ?h k) \<noteq> - 1" and d1: "\<And>k. snd (gates ?h k) = - 1"
    by (simp_all add: demo_hw_def)
  have c: "10 < attempts_per_cooling ?c" "0 < num_big_cycles_chunk ?c" "0 < num_cooling_cycles ?c"
    by (simp_all add: demo_cfg_def)
  have m: "chunk_max Seq7 ?c = 80000" by (simp add: demo_cfg_def)
  from exhaust_all_attempts_stops_at_capacity [OF d0 d1 c]
  obtain s' where "run_chunk_experiment Seq7 ?h ?c (alloc Seq7 ?c) = Inl (IndexError, s')"
    "attempt_no s' = 80001" "ttl0_detected_count s' = 80000"
    unfolding m by auto
  with d0 show ?thesis by auto
qed

subsection \<open>The HDF5 file of Seq6\<close>

lemma store_chunk_obj [simp]: "obj (store_chunk v i hs) = obj hs"
  by (cases "v = Seq6"; cases "stop_on_detection v")
     (simp_all add: store_chunk_def retrieve_ttl0_detections_def retrieve_ttl1_detections_def retrieve_atom_tomo_data_def chunk_result_def set_dataset_def on_h5file_def Let_def)

lemma store_chunk_h5file:
  "calls (h5file (store_chunk Seq6 i hs)) = calls (h5file hs) @ chunk_entries i (obj hs) @ [Flush]"
  "on_disk (h5file (store_chunk Seq6 i hs)) = on_disk (h5file hs) @ buffered (h5file hs) @ chunk_entries i (obj hs)"
  "buffered (h5file (store_chunk Seq6 i hs)) = []"
  by (simp_all add: store_chunk_def retrieve_ttl0_detections_def retrieve_ttl1_detections_def retrieve_atom_tomo_data_def chunk_result_def set_dataset_def on_h5file_def chunk_entries_def
        h5_write_def h5_flush_def Let_def)

lemma run_chunks_h5:
  assumes ok: "\<And>i. i < k \<Longrightarrow> kern (i0 + i) = Inr (ks (i0 + i))"
    and fail: "k < n \<Longrightarrow> kern (i0 + k) = Inl (e, sk)"
    and k: "k \<le> n"
    and b: "buffered (h5file hs) = []"
  shows "\<exists>hs'. run_chunks Seq6 kern i0 n hs = (if k < n then Inl (e, hs') else Inr hs')
     \<and> calls (h5file hs') =
         calls (h5file hs) @ concat (map (\<lambda>i. chunk_entries i (ks i) @ [Flush]) [i0..<i0 + k])
     \<and> on_disk (h5file hs') =
         on_disk (h5file hs) @ concat (map (\<lambda>i. chunk_entries i (ks i)) [i0..<i0 + k])
     \<and> buffered (h5file hs') = []"
  using assms
proof (induction n arbitrary: i0 k hs)
  case 0
  then show ?case by simp
next
  case (Suc n)
  show ?case
  proof (cases k)
    case 0
    with Suc.prems(2) have "kern i0 = Inl (e, sk)" by simp
    with 0 Suc.prems(4) show ?thesis by simp
  next
    case (Suc k')
    from Suc.prems(1)[of 0] Suc have k0: "kern i0 = Inr (ks i0)" by simp
    let ?hs1 = "store_chunk Seq6 i0 (hs\<lparr>obj := ks i0\<rparr>)"
    have ok': "\<And>i. i < k' \<Longrightarrow> kern (Suc i0 + i) = Inr (ks (Suc i0 + i))"
      using Suc.prems(1) Suc by (metis add_Suc_shift Suc_less_eq)
    have fail': "k' < n \<Longrightarrow> kern (Suc i0 + k') = Inl (e, sk)"
      using Suc.prems(2) Suc by simp
    have k': "k' \<le> n" using Suc.prems(3) Suc by simp
    have b': "buffered (h5file ?hs1) = []" by (simp add: store_chunk_h5file)
    from Suc.IH[OF ok' fail' k' b'] obtain hs' where hs':
      "run_chunks Seq6 kern (Suc i0) n ?hs1 = (if k' < n then Inl (e, hs') else Inr hs')"
      "calls (h5file hs') =
         calls (h5file ?hs1) @ concat (map (\<lambda>i. chunk_entries i (ks i) @ [Flush]) [Suc i0..<Suc i0 + k'])"
      "on_disk (h5file hs') =
         on_disk (h5file ?hs1) @ concat (map (\<lambda>i. chunk_entries i (ks i)) [Suc i0..<Suc i0 + k'])"
      "buffered (h5file hs') = []"
      by blast
    have u: "[i0..<i0 + k] = i0 # [Suc i0..<Suc i0 + k']"
      using Suc by (simp add: upt_conv_Cons del: upt_Suc)
    have "run_chunks Seq6 kern i0 (Suc n) hs = (if k < Suc n then Inl (e, hs') else Inr hs')"
      using k0 hs'(1) Suc by simp
    moreover have "calls (h5file hs') =
         calls (h5file hs) @ concat (map (\<lambda>i. chunk_entries i (ks i) @ [Flush]) [i0..<i0 + k])"
      unfolding hs'(2) u by (simp add: store_chunk_h5file)
    moreover have "on_disk (h5file hs') =
         on_disk (h5file hs) @ concat (map (\<lambda>i. chunk_entries i (ks i)) [i0..<i0 + k])"
      unfolding hs'(3) u using Suc.prems(4) by (simp add: store_chunk_h5file)
    ultimately show ?thesis using hs'(4) by blast
  qed
qed


lemma replay_append: "replay (xs @ ys) f = replay ys (replay xs f)"
  by (induction xs f rule: replay.induct) simp_all

lemma replay_writes:
  assumes "\<forall>x \<in> set w. x \<noteq> Flush \<and> x \<noteq> Close"
  shows "on_disk (replay w f) = on_disk f" and "buffered (replay w f) = buffered f @ w"
    and "flushes w = 0"
  using assms
  by (induction w f rule: replay.induct) (simp_all add: h5_write_def flushes_def)

lemma flushes_append: "flushes (xs @ ys) = flushes xs + flushes ys"
  by (simp add: flushes_def)

text \<open>
  Blocks of writes, each closed by a flush: after any prefix of the calls, the disk
  holds the blocks whose flush is in the prefix, whole, and nothing else.
\<close>

lemma crash_prefix:
  assumes "\<forall>w \<in> set ws. \<forall>x \<in> set w. x \<noteq> Flush \<and> x \<noteq> Close"
    and "buffered f = []"
  shows "on_disk (replay (take n (concat (map (\<lambda>w. w @ [Flush]) ws) @ [Close])) f)
       = on_disk f @ concat (take (flushes (take n (concat (map (\<lambda>w. w @ [Flush]) ws) @ [Close]))) ws)"
  using assms
proof (induction ws arbitrary: n f)
  case Nil
  then show ?case
    by (cases n) (simp_all add: flushes_def h5_close_def)
next
  case (Cons w ws)
  let ?rest = "concat (map (\<lambda>w. w @ [Flush]) ws) @ [Close]"
  have w: "\<forall>x \<in> set w. x \<noteq> Flush \<and> x \<noteq> Close" using Cons.prems(1) by simp
  have ws: "\<forall>w \<in> set ws. \<forall>x \<in> set w. x \<noteq> Flush \<and> x \<noteq> Close" using Cons.prems(1) by simp
  have ops: "concat (map (\<lambda>w. w @ [Flush]) (w # ws)) @ [Close] = w @ Flush # ?rest" by simp
  show ?case
  proof (cases "n \<le> length w")
    case True
    then have t: "take n (w @ Flush # ?rest) = take n w" by simp
    have tw: "\<forall>x \<in> set (take n w). x \<noteq> Flush \<and> x \<noteq> Close"
      using w by (meson in_set_takeD)
    show ?thesis
      unfolding ops t by (simp add: replay_writes[OF tw])
  next
    case False
    then obtain m where n: "n = length w + Suc m"
      by (metis add_Suc_right less_imp_Suc_add not_le)
    have t: "take n (w @ Flush # ?rest) = w @ Flush # take m ?rest"
      by (simp add: n)
    let ?f1 = "h5_flush (replay w f)"
    have f1: "on_disk ?f1 = on_disk f @ w" "buffered ?f1 = []"
      using Cons.prems(2) by (simp_all add: h5_flush_def replay_writes[OF w])
    have "on_disk (replay (take n (w @ Flush # ?rest)) f) = on_disk (replay (take m ?rest) ?f1)"
      unfolding t by (simp add: replay_append)
    also have "\<dots> = on_disk ?f1 @ concat (take (flushes (take m ?rest)) ws)"
      by (rule Cons.IH[OF ws f1(2)])
    also have "\<dots> = on_disk f @ concat (take (flushes (take n (w @ Flush # ?rest))) (w # ws))"
      unfolding t by (simp add: f1 flushes_append replay_writes(3)[OF w]) (simp add: flushes_def)
    finally show ?thesis unfolding ops .
  qed
qed

lemma flushes_take_le: "flushes (take n xs) \<le> flushes xs"
proof -
  have "flushes xs = flushes (take n xs) + flushes (drop n xs)"
    by (metis append_take_drop_id flushes_append)
  then show ?thesis by simp
qed

lemma chunk_entries_writes: "\<forall>x \<in> set (chunk_entries i s). x \<noteq> Flush \<and> x \<noteq> Close"
  by (simp add: chunk_entries_def)

lemma flushes_blocks:
  assumes "\<forall>w \<in> set ws. \<forall>x \<in> set w. x \<noteq> Flush \<and> x \<noteq> Close"
  shows "flushes (concat (map (\<lambda>w. w @ [Flush]) ws) @ [Close]) = length ws"
  using assms
  by (induction ws) (simp_all add: flushes_append replay_writes(3), simp_all add: flushes_def)


text \<open>
  Claim C8, for \<open>run\<close> of Seq6 with any outcomes of its kernel calls. Let the kernels
  of chunks \<open>0\<close> to \<open>k - 1\<close> return and, unless \<open>k\<close> is \<open>num_chunks\<close>, the kernel of
  chunk \<open>k\<close> fail. Then \<open>run\<close> fails with that kernel's exception (or returns, when
  there is none); the calls it has made on the file are, for each of the \<open>k\<close> completed
  chunks in turn, the group and the datasets of the chunk followed by one flush, and
  the closing \<open>close\<close>; the disk holds the records of exactly these \<open>k\<close> chunks. And if
  the run is cut off after any number \<open>n\<close> of its calls on the file, the disk holds,
  whole, the records of exactly those chunks whose flush is among the \<open>n\<close> calls: what a
  completed flush has covered is never lost, and at most the chunk in progress is.
\<close>

theorem chunk_boundary_persistence:
  assumes ok: "\<And>i. i < k \<Longrightarrow> kern i = Inr (ks i)"
    and fail: "k < num_chunks cfg \<Longrightarrow> kern k = Inl (e, sk)"
    and k: "k \<le> num_chunks cfg"
  shows "\<exists>hs. run_with Seq6 kern cfg = (if k < num_chunks cfg then Inl (e, hs) else Inr hs)
     \<and> calls (h5file hs) = concat (map (\<lambda>i. chunk_entries i (ks i) @ [Flush]) [0..<k]) @ [Close]
     \<and> flushes (calls (h5file hs)) = k
     \<and> on_disk (h5file hs) = concat (map (\<lambda>i. chunk_entries i (ks i)) [0..<k])
     \<and> (\<forall>n. on_disk (replay (take n (calls (h5file hs))) h5_open)
            = concat (map (\<lambda>i. chunk_entries i (ks i)) [0..<flushes (take n (calls (h5file hs)))]))"
proof -
  let ?ws = "map (\<lambda>i. chunk_entries i (ks i)) [0..<k]"
  have b0: "buffered (h5file (host_init Seq6 cfg)) = []"
    by (simp add: host_init_def h5_open_def)
  have ok0: "\<And>i. i < k \<Longrightarrow> kern (0 + i) = Inr (ks (0 + i))" using ok by simp
  have fail0: "k < num_chunks cfg \<Longrightarrow> kern (0 + k) = Inl (e, sk)" using fail by simp
  from run_chunks_h5[where kern=kern and ks=ks and ?i0.0=0 and k=k and e=e and sk=sk, OF ok0 fail0 k b0] obtain hs' where hs':
    "run_chunks Seq6 kern 0 (num_chunks cfg) (host_init Seq6 cfg)
       = (if k < num_chunks cfg then Inl (e, hs') else Inr hs')"
    "calls (h5file hs') = concat (map (\<lambda>i. chunk_entries i (ks i) @ [Flush]) [0..<k])"
    "on_disk (h5file hs') = concat (map (\<lambda>i. chunk_entries i (ks i)) [0..<k])"
    by (auto simp: host_init_def h5_open_def)
  let ?hs = "on_h5file h5_close hs'"
  have r: "run_with Seq6 kern cfg = (if k < num_chunks cfg then Inl (e, ?hs) else Inr ?hs)"
    by (simp add: run_with_def hs'(1))
  have cm: "concat (map (\<lambda>i. chunk_entries i (ks i) @ [Flush]) [0..<k])
      = concat (map (\<lambda>w. w @ [Flush]) ?ws)"
    by (simp add: comp_def)
  have c: "calls (h5file ?hs) = concat (map (\<lambda>w. w @ [Flush]) ?ws) @ [Close]"
    by (simp add: on_h5file_def h5_close_def hs'(2) cm)
  have d: "on_disk (h5file ?hs) = concat ?ws"
    by (simp add: on_h5file_def h5_close_def hs'(3))
  have wr: "\<forall>w \<in> set ?ws. \<forall>x \<in> set w. x \<noteq> Flush \<and> x \<noteq> Close"
    using chunk_entries_writes by auto
  have fl: "flushes (calls (h5file ?hs)) = k"
    unfolding c using flushes_blocks[OF wr] by simp
  have crash: "on_disk (replay (take n (calls (h5file ?hs))) h5_open)
      = concat (map (\<lambda>i. chunk_entries i (ks i)) [0..<flushes (take n (calls (h5file ?hs)))])" for n
  proof -
    let ?j = "flushes (take n (calls (h5file ?hs)))"
    have j: "?j \<le> k" using flushes_take_le[of n "calls (h5file ?hs)"] fl by simp
    have "on_disk (replay (take n (calls (h5file ?hs))) h5_open) = concat (take ?j ?ws)"
      unfolding c using crash_prefix[OF wr, of h5_open n] by (simp add: h5_open_def)
    also have "take ?j ?ws = map (\<lambda>i. chunk_entries i (ks i)) [0..<?j]"
      using j by (simp add: take_map take_upt)
    finally show ?thesis .
  qed
  show ?thesis
    apply (rule exI[of _ ?hs])
    apply (intro conjI allI)
        apply (rule r)
       apply (simp only: c cm)
      apply (rule fl)
     apply (rule d)
    apply (rule crash)
    done
qed

theorem chunk_boundary_persistence_witness:
  "(\<exists>hs. run_with Seq6
            (\<lambda>i. if i = 0 then Inr (alloc Seq6 (demo_cfg 2 1 1 1))
                  else Inl (TerminationRequested, alloc Seq6 (demo_cfg 2 1 1 1)))
            (demo_cfg 2 1 1 1) = Inl (TerminationRequested, hs)
     \<and> calls (h5file hs) = chunk_entries 0 (alloc Seq6 (demo_cfg 2 1 1 1)) @ [Flush, Close]
     \<and> flushes (calls (h5file hs)) = 1
     \<and> on_disk (h5file hs) = chunk_entries 0 (alloc Seq6 (demo_cfg 2 1 1 1)))"
proof -
  let ?c = "demo_cfg 2 1 1 1"
  let ?kern = "\<lambda>i::nat. if i = 0 then Inr (alloc Seq6 ?c) else Inl (TerminationRequested, alloc Seq6 ?c)"
  have ok: "\<And>i. i < Suc 0 \<Longrightarrow> ?kern i = Inr (alloc Seq6 ?c)" by simp
  have fail: "Suc 0 < num_chunks ?c \<Longrightarrow> ?kern (Suc 0) = Inl (TerminationRequested, alloc Seq6 ?c)" by simp
  have k: "Suc 0 \<le> num_chunks ?c" "Suc 0 < num_chunks ?c" by (simp_all add: demo_cfg_def)
  from chunk_boundary_persistence [of "Suc 0" ?kern "\<lambda>i. alloc Seq6 ?c" ?c TerminationRequested "alloc Seq6 ?c",
      OF ok fail k(1)] k(2)
  show ?thesis by (auto simp del: replay.simps)
qed

subsection \<open>Seq5 and Seq6 never run out of slots\<close>

lemma within_mono: "within L c s \<Longrightarrow> c \<le> c' \<Longrightarrow> within L c' s"
  by (simp add: within_def)

lemma within_frame [simp]:
  "within L c (on_rtio f s) = within L c s"
  "within L c (s\<lparr>photon_detected_this_cycle := b\<rparr>) = within L c s"
  "within L c (s\<lparr>rtio := r\<rparr>) = within L c s"
  by (simp_all add: within_def on_rtio_def)

lemma attempt_within:
  assumes stop: "stop_on_detection v" and w: "within L c s" and c: "c < L"
  shows "case attempt v h s of
           Inl p \<Rightarrow> False
         | Inr (f, s') \<Rightarrow>
             (f = Continue \<and> within L c s' \<and> photon_detected_this_cycle s' = photon_detected_this_cycle s)
           \<or> (f = Break \<and> within L (Suc c) s' \<and> photon_detected_this_cycle s')"
proof (cases "gates h (attempt_no s) = (- 1, - 1)")
  case True
  show ?thesis
    using w by (simp add: attempt_quiet[OF True] within_def on_rtio_def)
next
  case False
  obtain t0 t1 where g: "gates h (attempt_no s) = (t0, t1)" by (cases "gates h (attempt_no s)")
  with False have det: "t0 \<noteq> - 1 \<or> t1 \<noteq> - 1" by auto
  from w c have cap:
    "ttl0_detected_count s < length (ttl0_detected_times s)"
    "ttl0_detected_count s < length (ttl0_detected_attempts s)"
    "ttl1_detected_count s < length (ttl1_detected_times s)"
    "ttl1_detected_count s < length (ttl1_detected_attempts s)"
    "tomo_count s < length (atom_tomo_times s)"
    "tomo_count s < length (atom_tomo_attempts s)"
    by (simp_all add: within_def)
  from attempt_detect[OF stop g det cap] obtain s' where
    a: "attempt v h s = Inr (Break, s')" and f: "photon_detected_this_cycle s'"
    and k: "ttl0_detected_count s' = ttl0_detected_count s + (if t0 \<noteq> - 1 then 1 else 0)"
      "ttl0_detected_times s' =
          (if t0 \<noteq> - 1 then (ttl0_detected_times s)[ttl0_detected_count s := t0]
           else ttl0_detected_times s)"
      "ttl0_detected_attempts s' =
          (if t0 \<noteq> - 1 then (ttl0_detected_attempts s)[ttl0_detected_count s := attempt_index s]
           else ttl0_detected_attempts s)"
      "ttl1_detected_count s' = ttl1_detected_count s + (if t1 \<noteq> - 1 then 1 else 0)"
      "ttl1_detected_times s' =
          (if t1 \<noteq> - 1 then (ttl1_detected_times s)[ttl1_detected_count s := t1]
           else ttl1_detected_times s)"
      "ttl1_detected_attempts s' =
          (if t1 \<noteq> - 1 then (ttl1_detected_attempts s)[ttl1_detected_count s := attempt_index s]
           else ttl1_detected_attempts s)"
      "tomo_count s' = Suc (tomo_count s)"
      "atom_tomo_times s' = (atom_tomo_times s)[tomo_count s := now (attempt_pulses (rtio s))]"
      "atom_tomo_attempts s' = (atom_tomo_attempts s)[tomo_count s := attempt_index s]"
    by blast
  have "within L (Suc c) s'"
    using w by (simp add: within_def k)
  with a f show ?thesis by simp
qed

lemma cooling_cycle_within:
  assumes stop: "stop_on_detection v" and w: "within L c s" and c: "c < L"
    and nf: "\<not> photon_detected_this_cycle s"
  shows "case cooling_cycle v h cfg s of
           Inl p \<Rightarrow> False
         | Inr (f, s') \<Rightarrow>
             (f = Continue \<and> within L c s' \<and> \<not> photon_detected_this_cycle s')
           \<or> (f = Break \<and> within L (Suc c) s')"
proof -
  let ?I = "\<lambda>(j::nat) (t::kstate). within L c t \<and> \<not> photon_detected_this_cycle t"
  let ?Q = "\<lambda>t::kstate. (within L c t \<and> \<not> photon_detected_this_cycle t)
              \<or> (within L (Suc c) t \<and> photon_detected_this_cycle t)"
  have "case for_range (attempts_per_cooling cfg) (attempt v h) s of
          Inl p \<Rightarrow> False | Inr s' \<Rightarrow> ?Q s'"
  proof (rule for_range_rule[where I = ?I])
    show "?I 0 s" using w nf by simp
  next
    fix j and t :: kstate
    assume "?I j t"
    with attempt_within[OF stop _ c, of t h]
    show "case attempt v h t of Inl p \<Rightarrow> False
          | Inr (Continue, t') \<Rightarrow> ?I (Suc j) t' | Inr (Break, t') \<Rightarrow> ?Q t'"
      by (auto split: sum.splits flow.splits)
  qed simp
  then show ?thesis
    using stop by (auto simp: cooling_cycle_def on_rtio_def split: sum.splits)
qed

lemma big_cycle_within:
  assumes stop: "stop_on_detection v" and w: "within L c s" and c: "c < L"
  shows "case big_cycle v h cfg s of
           Inl p \<Rightarrow> False
         | Inr (f, s') \<Rightarrow> f = Continue \<and> within L (Suc c) s'"
proof -
  let ?s2 = "(on_rtio (steps [mot_load v h, atom_load h, configure_ch3 h]) s)
               \<lparr>photon_detected_this_cycle := False\<rparr>"
  let ?I = "\<lambda>(j::nat) (t::kstate). within L c t \<and> \<not> photon_detected_this_cycle t"
  have "case for_range (num_cooling_cycles cfg) (cooling_cycle v h cfg) ?s2 of
          Inl p \<Rightarrow> False | Inr s' \<Rightarrow> within L (Suc c) s'"
  proof (rule for_range_rule[where I = ?I])
    show "?I 0 ?s2" using w by simp
  next
    fix j and t :: kstate
    assume "?I j t"
    with cooling_cycle_within[OF stop _ c, of t h cfg]
    show "case cooling_cycle v h cfg t of Inl p \<Rightarrow> False
          | Inr (Continue, t') \<Rightarrow> ?I (Suc j) t' | Inr (Break, t') \<Rightarrow> within L (Suc c) t'"
      by (auto split: sum.splits flow.splits)
  next
    fix t :: kstate assume "?I (num_cooling_cycles cfg) t"
    then show "within L (Suc c) t" by (auto intro: within_mono)
  qed
  then show ?thesis
    using stop by (auto simp: big_cycle_def Let_def split: sum.splits)
qed

lemma chunk_within:
  assumes stop: "stop_on_detection v"
    and l: "length (ttl0_detected_times s) = L" "length (ttl0_detected_attempts s) = L"
      "length (ttl1_detected_times s) = L" "length (ttl1_detected_attempts s) = L"
      "length (atom_tomo_times s) = L" "length (atom_tomo_attempts s) = L"
    and B: "num_big_cycles_chunk cfg \<le> L"
  shows "\<exists>s'. run_chunk_experiment v h cfg s = Inr s' \<and> within L (num_big_cycles_chunk cfg) s'"
proof -
  let ?I = "\<lambda>(j::nat) (t::kstate). within L j t"
  have "case for_range (num_big_cycles_chunk cfg) (big_cycle v h cfg) (kernel_entry h s) of
          Inl p \<Rightarrow> False | Inr s' \<Rightarrow> within L (num_big_cycles_chunk cfg) s'"
  proof (rule for_range_rule[where I = ?I])
    show "?I 0 (kernel_entry h s)"
      using l by (simp add: within_def kernel_entry_def on_rtio_def)
  next
    fix j and t :: kstate
    assume j: "j < num_big_cycles_chunk cfg" and "?I j t"
    with big_cycle_within[OF stop _ _, of L j t h cfg] B
    show "case big_cycle v h cfg t of Inl p \<Rightarrow> False
          | Inr (Continue, t') \<Rightarrow> ?I (Suc j) t'
          | Inr (Break, t') \<Rightarrow> within L (num_big_cycles_chunk cfg) t'"
      by (auto split: sum.splits flow.splits)
  qed simp
  then show ?thesis
    by (auto simp: run_chunk_experiment_def split: sum.splits)
qed

lemma take_Suc_update:
  "c < length xs \<Longrightarrow> take (Suc c) (xs[c := x]) = take c xs @ [x]"
  by (simp add: take_Suc_conv_app_nth)

lemma store_ttl0_agree:
  assumes "agree s t"
  shows "rel_sum (rel_prod (=) agree) agree (store_ttl0 x s) (store_ttl0 x t)"
  using assms
  by (auto simp: store_ttl0_def set_item_def Let_def agree_def take_Suc_update)

lemma store_ttl1_agree:
  assumes "agree s t"
  shows "rel_sum (rel_prod (=) agree) agree (store_ttl1 x s) (store_ttl1 x t)"
  using assms
  by (auto simp: store_ttl1_def set_item_def Let_def agree_def take_Suc_update)

lemma tomography_agree:
  assumes "agree s t"
  shows "rel_sum (rel_prod (=) agree) agree (tomography s) (tomography t)"
  using assms
  by (auto simp: tomography_def set_item_def Let_def agree_def take_Suc_update on_rtio_def)


lemma bind_rel:
  assumes "rel_sum E A r r'"
    and "\<And>a b. A a b \<Longrightarrow> rel_sum E B (f a) (g b)"
  shows "rel_sum E B (case r of Inl e \<Rightarrow> Inl e | Inr a \<Rightarrow> f a) (case r' of Inl e \<Rightarrow> Inl e | Inr b \<Rightarrow> g b)"
  using assms by (cases r; cases r') simp_all

lemma for_range_rel:
  assumes body: "\<And>a b. A a b \<Longrightarrow> rel_sum E (rel_prod (=) A) (body a) (body b)"
    and "A s t"
  shows "rel_sum E A (for_range n body s) (for_range n body t)"
  using assms(2)
proof (induction n arbitrary: s t)
  case 0
  then show ?case by simp
next
  case (Suc n)
  note r = body[OF Suc.prems]
  show ?case
  proof (cases "body s")
    case (Inl a)
    with r show ?thesis by (cases "body t") simp_all
  next
    case (Inr p)
    obtain f u where p: "p = (f, u)" by (cases p)
    from r Inr obtain q where bt: "body t = Inr q" and pq: "rel_prod (=) A p q"
      by (cases "body t") simp_all
    obtain f' u' where q: "q = (f', u')" by (cases q)
    from pq p q have ff: "f' = f" and uu: "A u u'" by simp_all
    show ?thesis
      using Inr bt p q ff uu Suc.IH[OF uu] by (cases f) simp_all
  qed
qed

lemma agree_rtio:
  "agree s t \<Longrightarrow> agree (on_rtio f s) (on_rtio f t)"
  by (auto simp: agree_def on_rtio_def)

lemma attempt_agree:
  assumes a: "agree s t"
  shows "rel_sum (rel_prod (=) agree) (rel_prod (=) agree) (attempt v h s) (attempt v h t)"
proof -
  obtain t0 t1 where g: "gates h (attempt_no s) = (t0, t1)" by (cases "gates h (attempt_no s)")
  from a have n: "attempt_no t = attempt_no s" by (simp add: agree_def)
  from g n have g': "gates h (attempt_no t) = (t0, t1)" by simp
  let ?s2 = "(on_rtio attempt_pulses s)\<lparr>attempt_no := Suc (attempt_no s)\<rparr>"
  let ?t2 = "(on_rtio attempt_pulses t)\<lparr>attempt_no := Suc (attempt_no t)\<rparr>"
  have a2: "agree ?s2 ?t2" using a by (auto simp: agree_def on_rtio_def)
  have r0: "rel_sum (rel_prod (=) agree) agree
      (if t0 \<noteq> - 1 then store_ttl0 t0 ?s2 else Inr ?s2)
      (if t0 \<noteq> - 1 then store_ttl0 t0 ?t2 else Inr ?t2)"
    using a2 by (simp add: store_ttl0_agree)
  show ?thesis
    unfolding attempt_unfold[OF g] attempt_unfold[OF g']
  proof (rule bind_rel[OF r0])
    fix s3 t3 assume a3: "agree s3 t3"
    have r1: "rel_sum (rel_prod (=) agree) agree
        (if t1 \<noteq> - 1 then store_ttl1 t1 s3 else Inr s3)
        (if t1 \<noteq> - 1 then store_ttl1 t1 t3 else Inr t3)"
      using a3 by (simp add: store_ttl1_agree)
    show "rel_sum (rel_prod (=) agree) (rel_prod (=) agree)
        (case if t1 \<noteq> - 1 then store_ttl1 t1 s3 else Inr s3 of
           Inl e \<Rightarrow> Inl e
         | Inr s4 \<Rightarrow>
             if stop_on_detection v \<and> (t0 \<noteq> - 1 \<or> t1 \<noteq> - 1)
             then case tomography s4 of Inl e \<Rightarrow> Inl e
                  | Inr s5 \<Rightarrow> Inr (Break, s5\<lparr>photon_detected_this_cycle := True\<rparr>)
             else Inr (Continue, s4\<lparr>attempt_index := attempt_index s4 + 1\<rparr>))
        (case if t1 \<noteq> - 1 then store_ttl1 t1 t3 else Inr t3 of
           Inl e \<Rightarrow> Inl e
         | Inr s4 \<Rightarrow>
             if stop_on_detection v \<and> (t0 \<noteq> - 1 \<or> t1 \<noteq> - 1)
             then case tomography s4 of Inl e \<Rightarrow> Inl e
                  | Inr s5 \<Rightarrow> Inr (Break, s5\<lparr>photon_detected_this_cycle := True\<rparr>)
             else Inr (Continue, s4\<lparr>attempt_index := attempt_index s4 + 1\<rparr>))"
    proof (rule bind_rel[OF r1])
      fix s4 t4 assume a4: "agree s4 t4"
      show "rel_sum (rel_prod (=) agree) (rel_prod (=) agree)
          (if stop_on_detection v \<and> (t0 \<noteq> - 1 \<or> t1 \<noteq> - 1)
           then case tomography s4 of Inl e \<Rightarrow> Inl e
                | Inr s5 \<Rightarrow> Inr (Break, s5\<lparr>photon_detected_this_cycle := True\<rparr>)
           else Inr (Continue, s4\<lparr>attempt_index := attempt_index s4 + 1\<rparr>))
          (if stop_on_detection v \<and> (t0 \<noteq> - 1 \<or> t1 \<noteq> - 1)
           then case tomography t4 of Inl e \<Rightarrow> Inl e
                | Inr s5 \<Rightarrow> Inr (Break, s5\<lparr>photon_detected_this_cycle := True\<rparr>)
           else Inr (Continue, t4\<lparr>attempt_index := attempt_index t4 + 1\<rparr>))"
      proof (cases "stop_on_detection v \<and> (t0 \<noteq> - 1 \<or> t1 \<noteq> - 1)")
        case True
        have "rel_sum (rel_prod (=) agree) (rel_prod (=) agree)
            (case tomography s4 of Inl e \<Rightarrow> Inl e
                | Inr s5 \<Rightarrow> Inr (Break, s5\<lparr>photon_detected_this_cycle := True\<rparr>))
            (case tomography t4 of Inl e \<Rightarrow> Inl e
                | Inr s5 \<Rightarrow> Inr (Break, s5\<lparr>photon_detected_this_cycle := True\<rparr>))"
          by (rule bind_rel[OF tomography_agree[OF a4]]) (auto simp: agree_def)
        with True show ?thesis by simp
      next
        case False
        have "agree (s4\<lparr>attempt_index := attempt_index s4 + 1\<rparr>) (t4\<lparr>attempt_index := attempt_index t4 + 1\<rparr>)"
          using a4 by (auto simp: agree_def)
        with False show ?thesis by auto
      qed
    qed
  qed
qed

lemma cooling_cycle_agree:
  assumes a: "agree s t"
  shows "rel_sum (rel_prod (=) agree) (rel_prod (=) agree) (cooling_cycle v h cfg s) (cooling_cycle v h cfg t)"
  unfolding cooling_cycle_def
proof (rule bind_rel[OF for_range_rel[where A = agree, OF attempt_agree a]])
  fix s1 t1 assume a1: "agree s1 t1"
  then have "photon_detected_this_cycle t1 = photon_detected_this_cycle s1" by (simp add: agree_def)
  with a1 agree_rtio[OF a1, of "cooling h"]
  show "rel_sum (rel_prod (=) agree) (rel_prod (=) agree)
      (if stop_on_detection v \<and> photon_detected_this_cycle s1 then Inr (Break, s1)
       else Inr (Continue, on_rtio (cooling h) s1))
      (if stop_on_detection v \<and> photon_detected_this_cycle t1 then Inr (Break, t1)
       else Inr (Continue, on_rtio (cooling h) t1))"
    by simp
qed

lemma big_cycle_agree:
  assumes a: "agree s t"
  shows "rel_sum (rel_prod (=) agree) (rel_prod (=) agree) (big_cycle v h cfg s) (big_cycle v h cfg t)"
proof -
  let ?l = "steps [mot_load v h, atom_load h, configure_ch3 h]"
  let ?s2 = "if stop_on_detection v then (on_rtio ?l s)\<lparr>photon_detected_this_cycle := False\<rparr> else on_rtio ?l s"
  let ?t2 = "if stop_on_detection v then (on_rtio ?l t)\<lparr>photon_detected_this_cycle := False\<rparr> else on_rtio ?l t"
  have a2: "agree ?s2 ?t2" using agree_rtio[OF a, of ?l] by (auto simp: agree_def)
  show ?thesis
    unfolding big_cycle_def Let_def
  proof (rule bind_rel[OF for_range_rel[where A = agree, OF cooling_cycle_agree a2]])
    fix s3 t3 assume "agree s3 t3"
    from agree_rtio[OF this, of "break_realtime h"]
    show "rel_sum (rel_prod (=) agree) (rel_prod (=) agree)
        (Inr (Continue, on_rtio (break_realtime h) s3)) (Inr (Continue, on_rtio (break_realtime h) t3))"
      by simp
  qed
qed

lemma run_chunk_agree:
  assumes "length a0 = length (ttl0_detected_times s)" "length b0 = length (ttl0_detected_attempts s)"
    "length a1 = length (ttl1_detected_times s)" "length b1 = length (ttl1_detected_attempts s)"
    "length at = length (atom_tomo_times s)" "length bt = length (atom_tomo_attempts s)"
  shows "rel_sum (rel_prod (=) agree) agree
     (run_chunk_experiment v h cfg s) (run_chunk_experiment v h cfg (with_arrays a0 b0 a1 b1 at bt s))"
proof -
  have "agree (kernel_entry h s) (kernel_entry h (with_arrays a0 b0 a1 b1 at bt s))"
    using assms by (auto simp: agree_def kernel_entry_def on_rtio_def with_arrays_def)
  from for_range_rel[where A = agree and body = "big_cycle v h cfg" and E = "rel_prod (=) agree", OF big_cycle_agree this]
  show ?thesis
    unfolding run_chunk_experiment_def .
qed

subsection \<open>What \<open>run\<close> hands to the dataset manager and the file\<close>

lemma store_chunk_datasets:
  assumes "stop_on_detection v"
  shows "list_all (\<lambda>(key, val). datasets (store_chunk v i hs) key = Some val) (used_slices i (obj hs))"
  using assms
  by (cases v)
     (simp_all add: store_chunk_def used_slices_def retrieve_ttl0_detections_def retrieve_ttl1_detections_def
        retrieve_atom_tomo_data_def chunk_result_def set_dataset_def on_h5file_def Let_def)

lemma store_chunk_other:
  assumes "j \<noteq> i"
  shows "datasets (store_chunk v i hs) (name, j) = datasets hs (name, j)"
  using assms
  by (cases v)
     (simp_all add: store_chunk_def retrieve_ttl0_detections_def retrieve_ttl1_detections_def retrieve_atom_tomo_data_def chunk_result_def set_dataset_def on_h5file_def Let_def)

lemma store_chunk_agree:
  assumes "agree (obj hs) (obj hs')" and "datasets hs = datasets hs'" and "h5file hs = h5file hs'"
  shows "datasets (store_chunk v i hs) = datasets (store_chunk v i hs')"
    and "h5file (store_chunk v i hs) = h5file (store_chunk v i hs')"
  using assms
  by (cases v; simp add: store_chunk_def retrieve_ttl0_detections_def retrieve_ttl1_detections_def retrieve_atom_tomo_data_def chunk_result_def set_dataset_def on_h5file_def Let_def agree_def)+

lemma used_slices_keys: "\<forall>(key, val) \<in> set (used_slices i s). snd key = i"
  by (simp add: used_slices_def)

lemma run_chunks_datasets:
  assumes stop: "stop_on_detection v"
    and ok: "\<And>i. i < n \<Longrightarrow> kern (i0 + i) = Inr (ks (i0 + i))"
  shows "\<exists>hs'. run_chunks v kern i0 n hs = Inr hs'
     \<and> (\<forall>i < n. list_all (\<lambda>(key, val). datasets hs' key = Some val) (used_slices (i0 + i) (ks (i0 + i))))
     \<and> (\<forall>name j. j < i0 \<longrightarrow> datasets hs' (name, j) = datasets hs (name, j))"
  using ok
proof (induction n arbitrary: i0 hs)
  case 0
  then show ?case by simp
next
  case (Suc n)
  have k0: "kern i0 = Inr (ks i0)" using Suc.prems[of 0] by simp
  define h1 where "h1 = store_chunk v i0 (hs\<lparr>obj := ks i0\<rparr>)"
  have rest: "\<And>i. i < n \<Longrightarrow> kern (Suc i0 + i) = Inr (ks (Suc i0 + i))"
    using Suc.prems[of "Suc _"] by simp
  from Suc.IH[OF rest, of h1] obtain hs' where
    r: "run_chunks v kern (Suc i0) n h1 = Inr hs'"
    and d: "\<And>i. i < n \<Longrightarrow> list_all (\<lambda>(key, val). datasets hs' key = Some val) (used_slices (Suc i0 + i) (ks (Suc i0 + i)))"
    and o: "\<And>name j. j < Suc i0 \<Longrightarrow> datasets hs' (name, j) = datasets h1 (name, j)"
    by blast
  have run: "run_chunks v kern i0 (Suc n) hs = Inr hs'"
    by (simp add: k0 r[unfolded h1_def])
  have here: "list_all (\<lambda>(key, val). datasets h1 key = Some val) (used_slices i0 (ks i0))"
    using store_chunk_datasets[OF stop, of i0 "hs\<lparr>obj := ks i0\<rparr>"] by (simp add: h1_def)
  have first: "list_all (\<lambda>(key, val). datasets hs' key = Some val) (used_slices i0 (ks i0))"
    unfolding list_all_iff
  proof (clarify)
    fix name j val assume m: "((name, j), val) \<in> set (used_slices i0 (ks i0))"
    with used_slices_keys[of i0 "ks i0"] have j: "j = i0" by auto
    from here m have "datasets h1 (name, j) = Some val" by (auto simp: list_all_iff)
    with o[of j name] j show "datasets hs' (name, j) = Some val" by simp
  qed
  have all: "\<forall>i < Suc n. list_all (\<lambda>(key, val). datasets hs' key = Some val) (used_slices (i0 + i) (ks (i0 + i)))"
  proof (intro allI impI)
    fix i assume "i < Suc n"
    show "list_all (\<lambda>(key, val). datasets hs' key = Some val) (used_slices (i0 + i) (ks (i0 + i)))"
    proof (cases i)
      case 0
      with first show ?thesis by simp
    next
      case (Suc i')
      with \<open>i < Suc n\<close> d[of i'] show ?thesis by simp
    qed
  qed
  have old: "\<forall>name j. j < i0 \<longrightarrow> datasets hs' (name, j) = datasets hs (name, j)"
  proof (intro allI impI)
    fix name j assume j: "j < i0"
    then have "datasets hs' (name, j) = datasets h1 (name, j)" using o[of j name] by simp
    also have "\<dots> = datasets hs (name, j)"
      using j store_chunk_other[of j i0 v "hs\<lparr>obj := ks i0\<rparr>" name] by (simp add: h1_def)
    finally show "datasets hs' (name, j) = datasets hs (name, j)" .
  qed
  from run all old show ?case by blast
qed

lemma run_chunks_agree:
  assumes ok: "\<And>i. i < n \<Longrightarrow> kern (i0 + i) = Inr (ks (i0 + i))"
    and ok': "\<And>i. i < n \<Longrightarrow> kern' (i0 + i) = Inr (ks' (i0 + i))"
    and a: "\<And>i. i < n \<Longrightarrow> agree (ks (i0 + i)) (ks' (i0 + i))"
    and d: "datasets hs = datasets hs'" and f: "h5file hs = h5file hs'"
  shows "\<exists>h1 h1'. run_chunks v kern i0 n hs = Inr h1 \<and> run_chunks v kern' i0 n hs' = Inr h1'
     \<and> datasets h1 = datasets h1' \<and> h5file h1 = h5file h1'"
  using assms
proof (induction n arbitrary: i0 hs hs')
  case 0
  then show ?case by simp
next
  case (Suc n)
  have k0: "kern i0 = Inr (ks i0)" "kern' i0 = Inr (ks' i0)" "agree (ks i0) (ks' i0)"
    using Suc.prems(1)[of 0] Suc.prems(2)[of 0] Suc.prems(3)[of 0] by simp_all
  define g1 where "g1 = store_chunk v i0 (hs\<lparr>obj := ks i0\<rparr>)"
  define g1' where "g1' = store_chunk v i0 (hs'\<lparr>obj := ks' i0\<rparr>)"
  have dd: "datasets g1 = datasets g1'" and ff: "h5file g1 = h5file g1'"
    unfolding g1_def g1'_def
    using store_chunk_agree[of "hs\<lparr>obj := ks i0\<rparr>" "hs'\<lparr>obj := ks' i0\<rparr>" v i0] k0(3) Suc.prems(4,5)
    by simp_all
  have r1: "\<And>i. i < n \<Longrightarrow> kern (Suc i0 + i) = Inr (ks (Suc i0 + i))"
    using Suc.prems(1)[of "Suc _"] by simp
  have r2: "\<And>i. i < n \<Longrightarrow> kern' (Suc i0 + i) = Inr (ks' (Suc i0 + i))"
    using Suc.prems(2)[of "Suc _"] by simp
  have r3: "\<And>i. i < n \<Longrightarrow> agree (ks (Suc i0 + i)) (ks' (Suc i0 + i))"
    using Suc.prems(3)[of "Suc _"] by simp
  from Suc.IH[OF r1 r2 r3 dd ff]
  show ?case by (simp add: k0 g1_def g1'_def)
qed

lemma within_slices:
  assumes "within L c s" and "c \<le> L"
  shows "map (\<lambda>(key, val). length val) (used_slices i s) =
     (let (c0, c1, ct) = chunk_result s in [c0, c0, c1, c1, ct, ct])"
  using assms by (simp add: within_def used_slices_def chunk_result_def)

lemma within_retrieved:
  assumes "within L c s"
  shows "map length (retrieved s) = [L, L, L, L, L, L]"
  using assms
  by (simp add: within_def retrieved_def retrieve_ttl0_detections_def retrieve_ttl1_detections_def
        retrieve_atom_tomo_data_def)

lemma used_slices_retrieved:
  "map snd (used_slices i s) =
     (let (c0, c1, ct) = chunk_result s in map2 take [c0, c0, c1, c1, ct, ct] (retrieved s))"
  by (simp add: used_slices_def chunk_result_def retrieved_def retrieve_ttl0_detections_def
        retrieve_ttl1_detections_def retrieve_atom_tomo_data_def)

lemma run_with_Inr:
  assumes "run_chunks v kern 0 (num_chunks cfg) (host_init v cfg) = Inr h1"
  shows "\<exists>hs. run_with v kern cfg = Inr hs \<and> datasets hs = datasets h1
     \<and> on_disk (h5file hs) = on_disk (h5file h1)
     \<and> h5file hs = (if v = Seq6 then h5_close (h5file h1) else h5file h1)"
  using assms by (simp add: run_with_def on_h5file_def h5_close_def)

lemma one_detection_retrieved:
  assumes stop: "stop_on_detection v"
    and B: "num_big_cycles_chunk cfg = 1"
    and c: "1 \<le> num_cooling_cycles cfg" "1 \<le> attempts_per_cooling cfg"
    and g: "gates h 0 = (a, - 1)"
    and a: "a \<noteq> - 1"
  shows "\<exists>s'. run_chunk_experiment v h cfg (alloc v cfg) = Inr s'
     \<and> chunk_result s' = (1, 0, 1)
     \<and> retrieve_ttl0_detections s' = ([a, 0, 0, 0, 0, 0], [0, 0, 0, 0, 0, 0])
     \<and> retrieve_ttl1_detections s' = ([0, 0, 0, 0, 0, 0], [0, 0, 0, 0, 0, 0])"
proof -
  define k0 where "k0 = kernel_entry h (alloc v cfg)"
  have m: "chunk_max v cfg = 6" using stop B by (cases v) simp_all
  have k0: "attempt_no k0 = 0" "attempt_index k0 = 0"
    "ttl0_detected_count k0 = 0" "ttl1_detected_count k0 = 0" "tomo_count k0 = 0"
    "ttl0_detected_times k0 = np_zeros 6" "ttl0_detected_attempts k0 = np_zeros 6"
    "ttl1_detected_times k0 = np_zeros 6" "ttl1_detected_attempts k0 = np_zeros 6"
    "atom_tomo_times k0 = np_zeros 6" "atom_tomo_attempts k0 = np_zeros 6"
    using stop by (simp_all add: k0_def kernel_entry_def on_rtio_def alloc_def m)
  have z: "length (np_zeros 6) = 6" by (simp add: np_zeros_def)
  have g0: "gates h (attempt_no k0) = (a, - 1)" by (simp add: k0 g)
  from big_cycle_detect_first[OF stop g0 _ c] k0 z a
  obtain s1 where b1: "big_cycle v h cfg k0 = Inr (Continue, s1)"
    and k1: "ttl0_detected_count s1 = 1" "ttl1_detected_count s1 = 0" "tomo_count s1 = 1"
      "ttl0_detected_times s1 = (np_zeros 6)[0 := a]"
      "ttl0_detected_attempts s1 = (np_zeros 6)[0 := 0]"
      "ttl1_detected_times s1 = np_zeros 6" "ttl1_detected_attempts s1 = np_zeros 6"
    by auto
  have "run_chunk_experiment v h cfg (alloc v cfg) = Inr s1"
    by (simp add: run_chunk_experiment_def B k0_def[symmetric] b1)
  moreover have "(np_zeros 6)[0 := a] = [a, 0, 0, 0, 0, 0]"
    "(np_zeros 6)[0 := 0] = [0, 0, 0, 0, 0, 0]" "np_zeros 6 = [0, 0, 0, 0, 0, 0]"
    by (simp_all add: np_zeros_def eval_nat_numeral)
  ultimately show ?thesis
    by (simp add: k1 chunk_result_def retrieve_ttl0_detections_def retrieve_ttl1_detections_def)
qed

text \<open>
  Claim C6 as the specification states it does not hold: slots at and beyond the count
  are read. In Seq5 and Seq6, after a chunk of one big cycle whose first attempt sees an
  edge on ttl0 only, the kernel returns the counts \<open>(1, 0, 1)\<close>, and the lists
  \<open>retrieve_ttl0_detections\<close> and \<open>retrieve_ttl1_detections\<close> hand to \<open>run\<close> hold
  all six slots of each array: five unused slots of each ttl0 array and six of each ttl1
  array, with the zeros they were allocated with.
\<close>

theorem retrieve_reads_unused_slots:
  "(\<exists>s'. run_chunk_experiment Seq5 (demo_hw (\<lambda>k. (1000, - 1))) (demo_cfg 1 1 1 1)
             (alloc Seq5 (demo_cfg 1 1 1 1)) = Inr s'
       \<and> chunk_result s' = (1, 0, 1)
       \<and> retrieve_ttl0_detections s' = ([1000, 0, 0, 0, 0, 0], [0, 0, 0, 0, 0, 0])
       \<and> retrieve_ttl1_detections s' = ([0, 0, 0, 0, 0, 0], [0, 0, 0, 0, 0, 0]))
   \<and> (\<exists>s'. run_chunk_experiment Seq6 (demo_hw (\<lambda>k. (1000, - 1))) (demo_cfg 1 1 1 1)
             (alloc Seq6 (demo_cfg 1 1 1 1)) = Inr s'
       \<and> chunk_result s' = (1, 0, 1)
       \<and> retrieve_ttl0_detections s' = ([1000, 0, 0, 0, 0, 0], [0, 0, 0, 0, 0, 0])
       \<and> retrieve_ttl1_detections s' = ([0, 0, 0, 0, 0, 0], [0, 0, 0, 0, 0, 0]))"
proof -
  let ?h = "demo_hw (\<lambda>k. (1000, - 1))"
  let ?c = "demo_cfg 1 1 1 1"
  have c: "num_big_cycles_chunk ?c = 1" "1 \<le> num_cooling_cycles ?c" "1 \<le> attempts_per_cooling ?c"
    by (simp_all add: demo_cfg_def)
  have g: "gates ?h 0 = (1000, - 1)" by (simp add: demo_hw_def)
  have n: "(1000::int) \<noteq> - 1" by simp
  show ?thesis
    by (intro conjI one_detection_retrieved c g n) simp_all
qed

text \<open>
  Claim C6, amended, for \<open>run\<close> of Seq5 and Seq6 with any hardware. The kernel of every
  chunk returns, and \<open>run\<close> returns. For every chunk, \<open>run\<close> retrieves all
  \<open>chunk_max\<close> slots of each of the six arrays; the six datasets stored under the
  chunk's index are the retrieved lists, each cut to the count the kernel returned for
  its log (\<open>chunk_result\<close>), which are the arrays the kernel left cut to those counts,
  and each has exactly that many entries; in Seq6 the file holds on disk, chunk after
  chunk, the group with the same six slices. What is retrieved at or beyond a count
  reaches neither: had the arrays of the chunks been allocated with any other contents
  (\<open>junk i\<close> for chunk \<open>i\<close>) instead of zeros, \<open>run\<close> would hand the same datasets to
  the dataset manager and make the same calls, with the same data, on the file.
\<close>

theorem drained_data_is_first_count_entries:
  assumes stop: "stop_on_detection v"
    and junk: "\<forall>i < num_chunks cfg. refilled (alloc v cfg) (junk i)"
  shows "\<exists>ks hs hs'.
       run v hws cfg = Inr hs
     \<and> (\<forall>i < num_chunks cfg.
          run_chunk_experiment v (hws i) cfg (alloc v cfg) = Inr (ks i)
        \<and> map length (retrieved (ks i)) =
            [chunk_max v cfg, chunk_max v cfg, chunk_max v cfg,
             chunk_max v cfg, chunk_max v cfg, chunk_max v cfg]
        \<and> list_all (\<lambda>(key, val). datasets hs key = Some val) (used_slices i (ks i))
        \<and> map snd (used_slices i (ks i)) =
            (let (c0, c1, ct) = chunk_result (ks i)
             in map2 take [c0, c0, c1, c1, ct, ct] (retrieved (ks i)))
        \<and> map (\<lambda>(key, val). length val) (used_slices i (ks i)) =
            (let (c0, c1, ct) = chunk_result (ks i) in [c0, c0, c1, c1, ct, ct]))
     \<and> (v = Seq6 \<longrightarrow>
          on_disk (h5file hs) = concat (map (\<lambda>i. chunk_entries i (ks i)) [0..<num_chunks cfg]))
     \<and> run_with v (\<lambda>i. run_chunk_experiment v (hws i) cfg (junk i)) cfg = Inr hs'
     \<and> datasets hs' = datasets hs
     \<and> h5file hs' = h5file hs"
proof -
  let ?N = "num_chunks cfg"
  let ?L = "chunk_max v cfg"
  let ?B = "num_big_cycles_chunk cfg"
  let ?kern = "\<lambda>i. run_chunk_experiment v (hws i) cfg (alloc v cfg)"
  let ?kern' = "\<lambda>i. run_chunk_experiment v (hws i) cfg (junk i)"
  have B: "?B \<le> ?L" using stop by (cases v) simp_all
  have l: "length (ttl0_detected_times (alloc v cfg)) = ?L"
    "length (ttl0_detected_attempts (alloc v cfg)) = ?L"
    "length (ttl1_detected_times (alloc v cfg)) = ?L"
    "length (ttl1_detected_attempts (alloc v cfg)) = ?L"
    "length (atom_tomo_times (alloc v cfg)) = ?L"
    "length (atom_tomo_attempts (alloc v cfg)) = ?L"
    using stop by (simp_all add: alloc_def np_zeros_def)
  have "\<forall>i. \<exists>s. ?kern i = Inr s \<and> within ?L ?B s"
    using chunk_within[OF stop l B] by blast
  then obtain ks where ks: "\<And>i. ?kern i = Inr (ks i)" and w: "\<And>i. within ?L ?B (ks i)"
    by metis
  have "\<forall>i. \<exists>s. i < ?N \<longrightarrow> ?kern' i = Inr s \<and> agree (ks i) s"
  proof (intro allI)
    fix i
    show "\<exists>s. i < ?N \<longrightarrow> ?kern' i = Inr s \<and> agree (ks i) s"
    proof (cases "i < ?N")
      case True
      with junk have r: "refilled (alloc v cfg) (junk i)" by simp
      then have j: "junk i = with_arrays (ttl0_detected_times (junk i)) (ttl0_detected_attempts (junk i))
            (ttl1_detected_times (junk i)) (ttl1_detected_attempts (junk i))
            (atom_tomo_times (junk i)) (atom_tomo_attempts (junk i)) (alloc v cfg)"
        by (simp add: refilled_def)
      from r have "rel_sum (rel_prod (=) agree) agree (?kern i)
          (run_chunk_experiment v (hws i) cfg
             (with_arrays (ttl0_detected_times (junk i)) (ttl0_detected_attempts (junk i))
               (ttl1_detected_times (junk i)) (ttl1_detected_attempts (junk i))
               (atom_tomo_times (junk i)) (atom_tomo_attempts (junk i)) (alloc v cfg)))"
        by (intro run_chunk_agree) (simp_all add: refilled_def)
      with j have "rel_sum (rel_prod (=) agree) agree (Inr (ks i)) (?kern' i)"
        by (simp add: ks)
      then show ?thesis by (cases "?kern' i") simp_all
    next
      case False
      then show ?thesis by simp
    qed
  qed
  then obtain ks' where ks': "\<And>i. i < ?N \<Longrightarrow> ?kern' i = Inr (ks' i)"
    and a: "\<And>i. i < ?N \<Longrightarrow> agree (ks i) (ks' i)"
    by metis
  from run_chunks_datasets[where kern = ?kern and ks = ks and ?i0.0 = 0 and n = ?N and hs = "host_init v cfg", OF stop]
  obtain h1 where r1: "run_chunks v ?kern 0 ?N (host_init v cfg) = Inr h1"
    and d1: "\<And>i. i < ?N \<Longrightarrow> list_all (\<lambda>(key, val). datasets h1 key = Some val) (used_slices i (ks i))"
    by (auto simp: ks)
  from run_chunks_agree[where kern = ?kern and kern' = ?kern' and ks = ks and ks' = ks' and ?i0.0 = 0
      and n = ?N and hs = "host_init v cfg" and hs' = "host_init v cfg" and v = v]
  obtain h1' where r1': "run_chunks v ?kern' 0 ?N (host_init v cfg) = Inr h1'"
    and e1: "datasets h1 = datasets h1'" "h5file h1 = h5file h1'"
    using ks ks' a r1 by auto
  from run_with_Inr[OF r1] obtain hs where hs: "run_with v ?kern cfg = Inr hs"
    "datasets hs = datasets h1" "on_disk (h5file hs) = on_disk (h5file h1)"
    "h5file hs = (if v = Seq6 then h5_close (h5file h1) else h5file h1)"
    by blast
  from run_with_Inr[OF r1'] obtain hs' where hs': "run_with v ?kern' cfg = Inr hs'"
    "datasets hs' = datasets h1'"
    "h5file hs' = (if v = Seq6 then h5_close (h5file h1') else h5file h1')"
    by blast
  have disk: "v = Seq6 \<longrightarrow> on_disk (h5file hs) = concat (map (\<lambda>i. chunk_entries i (ks i)) [0..<?N])"
  proof
    assume v: "v = Seq6"
    have b: "buffered (h5file (host_init Seq6 cfg)) = []" by (simp add: host_init_def h5_open_def)
    from run_chunks_h5[where kern = ?kern and ks = ks and ?i0.0 = 0 and k = ?N and n = ?N
        and hs = "host_init Seq6 cfg", OF _ _ _ b]
    obtain h2 where "run_chunks Seq6 ?kern 0 ?N (host_init Seq6 cfg) = Inr h2"
      "on_disk (h5file h2) = on_disk (h5file (host_init Seq6 cfg))
         @ concat (map (\<lambda>i. chunk_entries i (ks i)) [0..<?N])"
      by (auto simp: ks)
    with r1 v hs(3) show "on_disk (h5file hs) = concat (map (\<lambda>i. chunk_entries i (ks i)) [0..<?N])"
      by (simp add: host_init_def h5_open_def)
  qed
  have run: "run v hws cfg = Inr hs" using hs(1) by (simp add: run_def)
  have per: "\<forall>i < ?N. ?kern i = Inr (ks i)
        \<and> map length (retrieved (ks i)) = [?L, ?L, ?L, ?L, ?L, ?L]
        \<and> list_all (\<lambda>(key, val). datasets hs key = Some val) (used_slices i (ks i))
        \<and> map snd (used_slices i (ks i)) =
            (let (c0, c1, ct) = chunk_result (ks i)
             in map2 take [c0, c0, c1, c1, ct, ct] (retrieved (ks i)))
        \<and> map (\<lambda>(key, val). length val) (used_slices i (ks i)) =
            (let (c0, c1, ct) = chunk_result (ks i) in [c0, c0, c1, c1, ct, ct])"
  proof (intro allI impI conjI)
    fix i assume i: "i < ?N"
    show "?kern i = Inr (ks i)" by (rule ks)
    show "map length (retrieved (ks i)) = [?L, ?L, ?L, ?L, ?L, ?L]"
      by (rule within_retrieved[OF w])
    show "list_all (\<lambda>(key, val). datasets hs key = Some val) (used_slices i (ks i))"
      using d1[OF i] by (simp add: hs(2))
    show "map snd (used_slices i (ks i)) =
            (let (c0, c1, ct) = chunk_result (ks i)
             in map2 take [c0, c0, c1, c1, ct, ct] (retrieved (ks i)))"
      by (rule used_slices_retrieved)
    show "map (\<lambda>(key, val). length val) (used_slices i (ks i)) =
            (let (c0, c1, ct) = chunk_result (ks i) in [c0, c0, c1, c1, ct, ct])"
      by (rule within_slices[OF w B])
  qed
  have same: "datasets hs' = datasets hs" "h5file hs' = h5file hs"
    using hs hs' e1 by simp_all
  from run per disk hs'(1) same show ?thesis by blast
qed

theorem drained_data_is_first_count_entries_witness:
  "refilled (alloc Seq5 (demo_cfg 1 2 1 1))
     (with_arrays (replicate 12 7) (replicate 12 7) (replicate 12 7) (replicate 12 7)
        (replicate 12 7) (replicate 12 7) (alloc Seq5 (demo_cfg 1 2 1 1)))
   \<and> (\<exists>hs hs'. run Seq5 (\<lambda>i. demo_hw (\<lambda>k. (1000 + int k, - 1))) (demo_cfg 1 2 1 1) = Inr hs
        \<and> datasets hs (''ttl0_detected_times_chunk_'', 0) = Some [1000, 1001]
        \<and> datasets hs (''ttl0_detected_attempts_chunk_'', 0) = Some [0, 0]
        \<and> datasets hs (''ttl1_detected_times_chunk_'', 0) = Some []
        \<and> datasets hs (''ttl1_detected_attempts_chunk_'', 0) = Some []
        \<and> datasets hs (''atom_tomo_attempts_chunk_'', 0) = Some [0, 0]
        \<and> run_with Seq5
            (\<lambda>i. run_chunk_experiment Seq5 (demo_hw (\<lambda>k. (1000 + int k, - 1))) (demo_cfg 1 2 1 1)
               (with_arrays (replicate 12 7) (replicate 12 7) (replicate 12 7) (replicate 12 7)
                  (replicate 12 7) (replicate 12 7) (alloc Seq5 (demo_cfg 1 2 1 1))))
            (demo_cfg 1 2 1 1) = Inr hs'
        \<and> datasets hs' = datasets hs)"
proof -
  let ?h = "demo_hw (\<lambda>k. (1000 + int k, - 1))"
  let ?c = "demo_cfg 1 2 1 1"
  let ?j = "with_arrays (replicate 12 7) (replicate 12 7) (replicate 12 7) (replicate 12 7)
        (replicate 12 7) (replicate 12 7) (alloc Seq5 ?c)"
  have r: "refilled (alloc Seq5 ?c) ?j"
    by (simp add: refilled_def with_arrays_def alloc_def demo_cfg_def np_zeros_def)
  have n: "num_chunks ?c = Suc 0" by (simp add: demo_cfg_def)
  have junk: "\<forall>i < num_chunks ?c. refilled (alloc Seq5 ?c) ((\<lambda>i. ?j) i)" using r by simp
  have stop: "stop_on_detection Seq5" by simp
  have c: "num_big_cycles_chunk ?c = 2" "1 \<le> num_cooling_cycles ?c" "1 \<le> attempts_per_cooling ?c"
    by (simp_all add: demo_cfg_def)
  have g: "gates ?h 0 = (1000, - 1)" "gates ?h 1 = (1001, - 1)"
    by (simp_all add: demo_hw_def)
  from two_detections_same_index[OF stop c g]
  obtain s' where s': "run_chunk_experiment Seq5 ?h ?c (alloc Seq5 ?c) = Inr s'"
    "chunk_result s' = (2, 0, 2)"
    "take 2 (ttl0_detected_times s') = [1000, 1001]"
    "take 2 (ttl0_detected_attempts s') = [0, 0]"
    "take 2 (atom_tomo_attempts s') = [0, 0]"
    by auto
  from drained_data_is_first_count_entries[OF stop junk, of "\<lambda>i. ?h"]
  obtain ks hs hs' where run: "run Seq5 (\<lambda>i. ?h) ?c = Inr hs"
    and per: "\<forall>i < num_chunks ?c. run_chunk_experiment Seq5 ?h ?c (alloc Seq5 ?c) = Inr (ks i)
        \<and> list_all (\<lambda>(key, val). datasets hs key = Some val) (used_slices i (ks i))"
    and run': "run_with Seq5 (\<lambda>i. run_chunk_experiment Seq5 ?h ?c ?j) ?c = Inr hs'"
    and same: "datasets hs' = datasets hs"
    by blast
  from per n s'(1) have k0: "ks 0 = s'"
    and sl: "list_all (\<lambda>(key, val). datasets hs key = Some val) (used_slices 0 s')"
    by auto
  have d: "datasets hs (''ttl0_detected_times_chunk_'', 0) = Some [1000, 1001]"
    "datasets hs (''ttl0_detected_attempts_chunk_'', 0) = Some [0, 0]"
    "datasets hs (''ttl1_detected_times_chunk_'', 0) = Some []"
    "datasets hs (''ttl1_detected_attempts_chunk_'', 0) = Some []"
    "datasets hs (''atom_tomo_attempts_chunk_'', 0) = Some [0, 0]"
    using sl s'(2-5) by (simp_all add: used_slices_def)
  from r run d run' same show ?thesis by blast
qed

end
